theory Spec2Isabelle
  imports Complex_Main "HOL-Library.Log_Nat"
begin

section \<open>Python values as they come out of the JSON loader\<close>

text \<open>
  The script reads its records with \<^verbatim>\<open>json.load\<close>, so every field of a raw record is an
  arbitrary JSON value: the code never checks a type. A float is either a finite number
  or one of the three special values the loader accepts (\<^verbatim>\<open>Infinity\<close>, \<^verbatim>\<open>-Infinity\<close>,
  \<^verbatim>\<open>NaN\<close>). A finite float is the rational number it denotes (the two zeros are one
  value); every rational is admitted as an input, the doubles among them. Comparisons are
  exact, as in Python; a sum or difference with a float operand is rounded to the nearest
  double, ties to even, as the hardware does. Strings are lists of characters with code
  points below 256.
\<close>

datatype pyfloat = Fin rat | PInf | NInf | NaN

datatype json =
    JNull
  | JBool bool
  | JInt int
  | JFloat pyfloat
  | JStr string
  | JArr "json list"
  | JObj "(string \<times> json) list"

text \<open>The value of a numeric expression: a Python \<^verbatim>\<open>int\<close> or a Python \<^verbatim>\<open>float\<close>.\<close>

datatype pynum = PInt int | PFloat pyfloat

datatype pyerror = TypeError | KeyError

text \<open>A raw sighting record is a dictionary from field names to JSON values.\<close>

type_synonym raw = "(string \<times> json) list"

subsection \<open>Truth value, dictionary access\<close>

fun truthy :: "json \<Rightarrow> bool" where
  "truthy JNull = False"
| "truthy (JBool b) = b"
| "truthy (JInt n) = (n \<noteq> 0)"
| "truthy (JFloat f) = (f \<noteq> Fin 0)"
| "truthy (JStr s) = (s \<noteq> [])"
| "truthy (JArr xs) = (xs \<noteq> [])"
| "truthy (JObj kvs) = (kvs \<noteq> [])"

text \<open>\<^verbatim>\<open>r.get(k)\<close>: the value, or \<^verbatim>\<open>None\<close> when the key is missing.\<close>

definition get :: "raw \<Rightarrow> string \<Rightarrow> json" where
  "get r k = (case map_of r k of None \<Rightarrow> JNull | Some v \<Rightarrow> v)"

text \<open>\<^verbatim>\<open>r.get(k, d)\<close>: the default only replaces a missing key, not a stored \<^verbatim>\<open>null\<close>.\<close>

definition get_default :: "raw \<Rightarrow> string \<Rightarrow> json \<Rightarrow> json" where
  "get_default r k d = (case map_of r k of None \<Rightarrow> d | Some v \<Rightarrow> v)"

text \<open>\<^verbatim>\<open>r[k]\<close> raises \<^verbatim>\<open>KeyError\<close> on a missing key.\<close>

definition subscript :: "raw \<Rightarrow> string \<Rightarrow> pyerror + json" where
  "subscript r k = (case map_of r k of None \<Rightarrow> Inl KeyError | Some v \<Rightarrow> Inr v)"

text \<open>Sequencing of computations that may raise: the first exception is the result.\<close>

definition bindE :: "pyerror + 'a \<Rightarrow> ('a \<Rightarrow> pyerror + 'b) \<Rightarrow> pyerror + 'b" where
  "bindE m f = (case m of Inl e \<Rightarrow> Inl e | Inr v \<Rightarrow> f v)"

subsection \<open>Order of floats\<close>

text \<open>
  Python orders \<^verbatim>\<open>int\<close> and \<^verbatim>\<open>float\<close> values by their exact numeric value; every
  comparison with \<^verbatim>\<open>NaN\<close> is false.
\<close>

fun fl_lt :: "pyfloat \<Rightarrow> pyfloat \<Rightarrow> bool" where
  "fl_lt (Fin x) (Fin y) = (x < y)"
| "fl_lt (Fin x) PInf = True"
| "fl_lt NInf (Fin y) = True"
| "fl_lt NInf PInf = True"
| "fl_lt _ _ = False"

text \<open>\<^verbatim>\<open>a <= b\<close>: smaller or equal, and \<^verbatim>\<open>NaN\<close> is not equal to itself.\<close>

definition fl_le :: "pyfloat \<Rightarrow> pyfloat \<Rightarrow> bool" where
  "fl_le a b = (fl_lt a b \<or> (a = b \<and> a \<noteq> NaN))"

subsection \<open>Rounding to a double\<close>

text \<open>\<open>pow2 k\<close> is 2 to the power \<open>k\<close>; \<open>ilog2 a\<close> is the binary exponent of a positive \<open>a\<close>:
  the \<open>e\<close> with \<open>pow2 e \<le> a < pow2 (e + 1)\<close>.\<close>

definition pow2 :: "int \<Rightarrow> rat" where
  "pow2 k = (if 0 \<le> k then 2 ^ nat k else 1 / 2 ^ nat (- k))"

definition ilog2 :: "rat \<Rightarrow> int" where
  "ilog2 a = (if 1 \<le> a then int (floorlog 2 (nat \<lfloor>a\<rfloor>)) - 1
              else - int (floorlog 2 (nat (\<lceil>1 / a\<rceil> - 1))))"

definition round_half_even :: "rat \<Rightarrow> int" where
  "round_half_even m =
     (let f = \<lfloor>m\<rfloor>; d = m - of_int f
      in if d < 1 / 2 then f else if 1 / 2 < d then f + 1 else if even f then f else f + 1)"

text \<open>
  IEEE 754 binary64, round to nearest, ties to even: 53 significant bits, so the spacing
  at exponent \<open>e\<close> is \<open>pow2 (e - 52)\<close>; below exponent -1022 the spacing stays that of
  -1022 (subnormal numbers); a result of \<open>pow2 1024\<close> or more is an infinity.
\<close>

definition round_double :: "rat \<Rightarrow> pyfloat" where
  "round_double x =
     (if x = 0 then Fin 0
      else let a = \<bar>x\<bar>;
               u = pow2 (max (ilog2 a) (- 1022) - 52);
               y = of_int (round_half_even (a / u)) * u
           in if pow2 1024 \<le> y then (if 0 < x then PInf else NInf)
              else Fin (if 0 < x then y else - y))"

fun fl_neg :: "pyfloat \<Rightarrow> pyfloat" where
  "fl_neg (Fin x) = Fin (- x)"
| "fl_neg PInf = NInf"
| "fl_neg NInf = PInf"
| "fl_neg NaN = NaN"

fun fl_add :: "pyfloat \<Rightarrow> pyfloat \<Rightarrow> pyfloat" where
  "fl_add (Fin x) (Fin y) = round_double (x + y)"
| "fl_add NaN _ = NaN"
| "fl_add _ NaN = NaN"
| "fl_add PInf NInf = NaN"
| "fl_add NInf PInf = NaN"
| "fl_add PInf _ = PInf"
| "fl_add _ PInf = PInf"
| "fl_add NInf _ = NInf"
| "fl_add _ NInf = NInf"

subsection \<open>Numbers\<close>

text \<open>The exact value of a number, by which Python compares an \<^verbatim>\<open>int\<close> with a \<^verbatim>\<open>float\<close>.\<close>

fun to_fl :: "pynum \<Rightarrow> pyfloat" where
  "to_fl (PInt n) = Fin (of_int n)"
| "to_fl (PFloat f) = f"

definition num_lt :: "pynum \<Rightarrow> pynum \<Rightarrow> bool" where
  "num_lt a b = fl_lt (to_fl a) (to_fl b)"

definition num_le :: "pynum \<Rightarrow> pynum \<Rightarrow> bool" where
  "num_le a b = fl_le (to_fl a) (to_fl b)"

text \<open>
  The float an operand of mixed arithmetic is converted to: the nearest double of an
  \<^verbatim>\<open>int\<close>. (Python raises \<^verbatim>\<open>OverflowError\<close> for an \<^verbatim>\<open>int\<close> beyond the range of the
  doubles; the \<^verbatim>\<open>int\<close> operands of this script are its literals and running scores
  of at most 10.)
\<close>

fun to_float :: "pynum \<Rightarrow> pyfloat" where
  "to_float (PInt n) = round_double (of_int n)"
| "to_float (PFloat f) = f"

text \<open>\<^verbatim>\<open>a + b\<close> and \<^verbatim>\<open>a - b\<close>: an \<^verbatim>\<open>int\<close> when both operands are, a \<^verbatim>\<open>float\<close> otherwise.\<close>

fun num_add :: "pynum \<Rightarrow> pynum \<Rightarrow> pynum" where
  "num_add (PInt a) (PInt b) = PInt (a + b)"
| "num_add a b = PFloat (fl_add (to_float a) (to_float b))"

fun num_sub :: "pynum \<Rightarrow> pynum \<Rightarrow> pynum" where
  "num_sub (PInt a) (PInt b) = PInt (a - b)"
| "num_sub a b = PFloat (fl_add (to_float a) (fl_neg (to_float b)))"

text \<open>\<^verbatim>\<open>min(a, b)\<close> keeps its first argument unless the second is strictly smaller.\<close>

definition num_min :: "pynum \<Rightarrow> pynum \<Rightarrow> pynum" where
  "num_min a b = (if num_lt b a then b else a)"

text \<open>
  The numeric reading of a JSON value: \<^verbatim>\<open>bool\<close> is a subclass of \<^verbatim>\<open>int\<close>; every other
  non-number makes an ordering comparison or a subtraction with an \<^verbatim>\<open>int\<close> raise
  \<^verbatim>\<open>TypeError\<close>.
\<close>

fun num_of :: "json \<Rightarrow> pynum option" where
  "num_of (JBool b) = Some (PInt (if b then 1 else 0))"
| "num_of (JInt n) = Some (PInt n)"
| "num_of (JFloat f) = Some (PFloat f)"
| "num_of _ = None"

text \<open>\<^verbatim>\<open>v > n\<close>, \<^verbatim>\<open>v < n\<close>, \<^verbatim>\<open>min(n, v)\<close> and \<^verbatim>\<open>v - n\<close> for an integer literal \<open>n\<close>.\<close>

definition gt_const :: "json \<Rightarrow> int \<Rightarrow> pyerror + bool" where
  "gt_const v n = (case num_of v of None \<Rightarrow> Inl TypeError | Some x \<Rightarrow> Inr (num_lt (PInt n) x))"

definition lt_const :: "json \<Rightarrow> int \<Rightarrow> pyerror + bool" where
  "lt_const v n = (case num_of v of None \<Rightarrow> Inl TypeError | Some x \<Rightarrow> Inr (num_lt x (PInt n)))"

definition min_const :: "int \<Rightarrow> json \<Rightarrow> pyerror + pynum" where
  "min_const n v = (case num_of v of None \<Rightarrow> Inl TypeError | Some x \<Rightarrow> Inr (num_min (PInt n) x))"

definition sub_const :: "json \<Rightarrow> int \<Rightarrow> pyerror + pynum" where
  "sub_const v n = (case num_of v of None \<Rightarrow> Inl TypeError | Some x \<Rightarrow> Inr (num_sub x (PInt n)))"

text \<open>The guard \<^verbatim>\<open>r.get(k) and r[k] > n\<close>: the comparison only runs on a truthy value.\<close>

definition key_gt :: "raw \<Rightarrow> string \<Rightarrow> int \<Rightarrow> pyerror + bool" where
  "key_gt r k n =
     (if truthy (get r k) then bindE (subscript r k) (\<lambda>v. gt_const v n) else Inr False)"

section \<open>The scorers\<close>

subsection \<open>Quality score (ranking heuristic)\<close>

definition quality_score :: "raw \<Rightarrow> pyerror + pynum" where
  "quality_score r =
     (let score = PInt 0;
          score = (if truthy (get r ''physiological_effects'') then num_add score (PInt 3) else score);
          score = (if truthy (get r ''em_interference'') then num_add score (PInt 3) else score);
          score = (if truthy (get r ''earthquake_nearby'') then num_add score (PInt 2) else score);
          score = (if truthy (get r ''geomagnetic_storm'') then num_add score (PInt 2) else score)
      in bindE (key_gt r ''witness_count'' 1) (\<lambda>c.
         bindE (if c then bindE (subscript r ''witness_count'') (\<lambda>w.
                          bindE (min_const 3 w) (\<lambda>m. Inr (num_add score m)))
                else Inr score) (\<lambda>score.
         bindE (key_gt r ''duration_seconds'' 60) (\<lambda>c.
         let score = (if c then num_add score (PInt 1) else score) in
         bindE (if truthy (get r ''shape'')
                then bindE (subscript r ''shape'') (\<lambda>s.
                       Inr (s \<notin> set [JStr ''unknown'', JStr ''other'', JStr ''light'']))
                else Inr False) (\<lambda>c.
         let score = (if c then num_add score (PInt 1) else score) in
         Inr score)))))"

subsection \<open>Triage score\<close>

definition calc_triage_score :: "raw \<Rightarrow> pyerror + pynum" where
  "calc_triage_score r =
     (let score = PInt 0;
          score = (if truthy (get r ''latitude'') \<and> truthy (get r ''longitude'')
                   then num_add score (PInt 3) else score)
      in bindE (key_gt r ''witness_count'' 1) (\<lambda>c.
         bindE (if c then bindE (subscript r ''witness_count'') (\<lambda>w.
                          bindE (sub_const w 1) (\<lambda>d. Inr (num_add score (num_min (PInt 2) d))))
                else Inr score) (\<lambda>score.
         bindE (key_gt r ''duration_seconds'' 0) (\<lambda>c.
         let score = (if c then num_add score (PInt 1) else score);
             score = (if truthy (get r ''physical_effects'') \<or> truthy (get r ''physiological_effects'')
                      then num_add score (PInt 2) else score);
             score = (if truthy (get r ''em_interference'') then num_add score (PInt 1) else score);
             score = (if truthy (get r ''source'') then num_add score (PInt 1) else score)
         in Inr (num_min (PInt 10) score)))))"

subsection \<open>Confound score\<close>

text \<open>
  The running score only ever receives integer literals, so it is an \<^verbatim>\<open>int\<close>; the
  distances are only compared.
\<close>

definition calc_confound_score :: "raw \<Rightarrow> pyerror + int" where
  "calc_confound_score r =
     (let score = (0::int);
          airport = get r ''airport_nearby_km''
      in bindE (if airport \<noteq> JNull then
                  bindE (lt_const airport 10) (\<lambda>c1.
                  if c1 then Inr (score + 40)
                  else bindE (lt_const airport 30) (\<lambda>c2.
                  if c2 then Inr (score + 25)
                  else bindE (lt_const airport 50) (\<lambda>c3.
                  if c3 then Inr (score + 10) else Inr score)))
                else Inr score) (\<lambda>score.
         let military = get r ''military_base_nearby_km''
         in bindE (if military \<noteq> JNull then
                     bindE (lt_const military 30) (\<lambda>c1.
                     if c1 then Inr (score + 30)
                     else bindE (lt_const military 50) (\<lambda>c2.
                     if c2 then Inr (score + 15) else Inr score))
                   else Inr score) (\<lambda>score.
         let score = (if truthy (get r ''physiological_effects'') then score - 20 else score);
             score = (if truthy (get r ''em_interference'') then score - 15 else score)
         in Inr (max 0 (min 100 score)))))"

section \<open>Text sanitizer\<close>

text \<open>
  \<^verbatim>\<open>str.strip()\<close> removes the characters for which \<^verbatim>\<open>str.isspace()\<close> holds; below code
  point 256 these are 9 to 13, 28 to 32, 133 and 160.
\<close>

definition is_space :: "char \<Rightarrow> bool" where
  "is_space c = (of_char c \<in> {9, 10, 11, 12, 13, 28, 29, 30, 31, 32, 133, 160 :: nat})"

definition strip :: "string \<Rightarrow> string" where
  "strip s = rev (dropWhile is_space (rev (dropWhile is_space s)))"

text \<open>\<^verbatim>\<open>s.replace('\x00', '')\<close>\<close>

definition replace_nul :: "string \<Rightarrow> string" where
  "replace_nul s = filter (\<lambda>c. c \<noteq> CHR 0x00) s"

text \<open>\<^verbatim>\<open>s[:n]\<close>: a negative bound counts from the end.\<close>

definition slice_to :: "'a list \<Rightarrow> int \<Rightarrow> 'a list" where
  "slice_to s n = (if 0 \<le> n then take (nat n) s else take (length s - nat (- n)) s)"

text \<open>
  \<^verbatim>\<open>str(v)\<close> is the string itself for a string. What the interpreter prints for a number,
  a boolean, a list or a dictionary is not part of the script: it is the parameter
  \<open>render\<close> of every function that formats a value.
\<close>

definition py_str :: "(json \<Rightarrow> string) \<Rightarrow> json \<Rightarrow> string" where
  "py_str render v = (case v of JStr s \<Rightarrow> s | _ \<Rightarrow> render v)"

definition clean_text :: "(json \<Rightarrow> string) \<Rightarrow> json \<Rightarrow> int \<Rightarrow> string" where
  "clean_text render text max_len =
     (if \<not> truthy text then []
      else slice_to (strip (replace_nul (py_str render text))) max_len)"

section \<open>Record transformer\<close>

definition SYSTEM_USER_ID :: string where
  "SYSTEM_USER_ID = ''00000000-0000-0000-0000-000000000000''"

definition BATCH_SIZE :: nat where
  "BATCH_SIZE = 500"

definition MAX_RECORDS :: nat where
  "MAX_RECORDS = 5000"

record investigation =
  user_id :: string
  investigation_type :: string
  title :: string
  description :: string
  raw_data :: json
  triage_score :: pynum
  triage_status :: string
  triage_notes :: string

fun json_of_num :: "pynum \<Rightarrow> json" where
  "json_of_num (PInt n) = JInt n"
| "json_of_num (PFloat f) = JFloat f"

text \<open>The status chain of \<^verbatim>\<open>transform_record\<close> (its first \<^verbatim>\<open>if\<close>/\<^verbatim>\<open>elif\<close>/\<^verbatim>\<open>else\<close>).\<close>

definition status_of :: "pynum \<Rightarrow> int \<Rightarrow> string" where
  "status_of t c =
     (if num_le (PInt 7) t \<and> c < 30 then ''verified''
      else if num_le (PInt 4) t \<or> c < 50 then ''provisional''
      else ''pending'')"

text \<open>
  \<^verbatim>\<open>v[:10]\<close> on a truthy value: strings and lists can be sliced, everything else raises
  (a number or \<^verbatim>\<open>True\<close> is not subscriptable, a dictionary rejects the slice as a key).
\<close>

definition slice10 :: "json \<Rightarrow> pyerror + json" where
  "slice10 v =
     (case v of
        JStr s \<Rightarrow> Inr (JStr (take 10 s))
      | JArr xs \<Rightarrow> Inr (JArr (take 10 xs))
      | _ \<Rightarrow> Inl TypeError)"

definition build_raw_data :: "raw \<Rightarrow> pynum \<Rightarrow> int \<Rightarrow> json" where
  "build_raw_data r t c =
     JObj [
       (''date_time'', get r ''date_time''),
       (''local_sidereal_time'', get r ''local_sidereal_time''),
       (''duration_seconds'', get r ''duration_seconds''),
       (''shape'', get r ''shape''),
       (''witness_count'', get r ''witness_count''),
       (''location'', JObj [
          (''city'', get r ''city''),
          (''state'', get r ''state''),
          (''country'', get r ''country''),
          (''latitude'', get r ''latitude''),
          (''longitude'', get r ''longitude'')]),
       (''geophysical'', JObj [
          (''nearest_fault_line_km'', get r ''nearest_fault_line_km''),
          (''bedrock_type'', get r ''bedrock_type''),
          (''piezoelectric_bedrock'', get r ''piezoelectric_bedrock''),
          (''earthquake_nearby'', get r ''earthquake_nearby''),
          (''earthquake_count'', get r ''earthquake_count''),
          (''max_magnitude'', get r ''max_magnitude''),
          (''population_density'', get r ''population_density'')]),
       (''geomagnetic'', JObj [
          (''kp_index'', get r ''kp_index''),
          (''kp_max'', get r ''kp_max''),
          (''geomagnetic_storm'', get r ''geomagnetic_storm'')]),
       (''confounds'', JObj [
          (''military_base_nearby_km'', get r ''military_base_nearby_km''),
          (''airport_nearby_km'', get r ''airport_nearby_km''),
          (''weather_conditions'', get r ''weather_conditions'')]),
       (''effects'', JObj [
          (''physical_effects'', get r ''physical_effects''),
          (''physical_effects_desc'', get r ''physical_effects_desc''),
          (''physiological_effects'', get r ''physiological_effects''),
          (''physiological_effects_desc'', get r ''physiological_effects_desc''),
          (''em_interference'', get r ''em_interference''),
          (''em_interference_desc'', get r ''em_interference_desc'')]),
       (''source'', get r ''source''),
       (''source_id'', get r ''source_id''),
       (''quality_score'', json_of_num t),
       (''confound_score'', JInt c)]"

definition transform_record :: "(json \<Rightarrow> string) \<Rightarrow> raw \<Rightarrow> pyerror + investigation" where
  "transform_record render r =
     bindE (calc_triage_score r) (\<lambda>t.
     bindE (calc_confound_score r) (\<lambda>c.
     let status = status_of t c in
     bindE (if truthy (get r ''date_time'')
            then slice10 (get_default r ''date_time'' (JStr []))
            else Inr (JStr ''Unknown'')) (\<lambda>date_str.
     let city = clean_text render (get_default r ''city'' (JStr ''Unknown'')) 50;
         state = clean_text render (get_default r ''state'' (JStr [])) 20;
         shape = clean_text render (get_default r ''shape'' (JStr [])) 20;
         ttl = take 200 ((if shape \<noteq> [] then shape @ '' '' else []) @ ''UFO - '' @ city
                  @ '', '' @ state @ '' ('' @ py_str render date_str @ '')'');
         cleaned = clean_text render (get_default r ''description'' (JStr [])) 500;
         desc = (if cleaned \<noteq> [] then cleaned else ''UFO sighting report'')
     in Inr \<lparr> user_id = SYSTEM_USER_ID,
              investigation_type = ''ufo'',
              title = ttl,
              description = desc,
              raw_data = build_raw_data r t c,
              triage_score = t,
              triage_status = status,
              triage_notes = ''Batch import. Quality: '' @ render (json_of_num t)
                 @ ''/10, Confound: '' @ render (JInt c) @ ''%'' \<rparr>)))"

section \<open>Selector and pipeline driver\<close>

text \<open>
  The driver is modelled from the loaded record list on: the check of the two environment
  variables, the reading of the input file and the closing statistics are outside the
  model, and the lines printed before the batch loop are left out.
\<close>

text \<open>A list comprehension or a map whose body may raise stops at the first exception.\<close>

fun filterE :: "('a \<Rightarrow> pyerror + bool) \<Rightarrow> 'a list \<Rightarrow> pyerror + 'a list" where
  "filterE p [] = Inr []"
| "filterE p (x # xs) =
     bindE (p x) (\<lambda>b. bindE (filterE p xs) (\<lambda>ys. Inr (if b then x # ys else ys)))"

fun mapE :: "('a \<Rightarrow> pyerror + 'b) \<Rightarrow> 'a list \<Rightarrow> pyerror + 'b list" where
  "mapE f [] = Inr []"
| "mapE f (x # xs) = bindE (f x) (\<lambda>y. bindE (mapE f xs) (\<lambda>ys. Inr (y # ys)))"

text \<open>Tier 1: coordinates and local sidereal time.\<close>

definition is_tier1 :: "raw \<Rightarrow> bool" where
  "is_tier1 r =
     (truthy (get r ''latitude'') \<and> truthy (get r ''longitude'')
      \<and> truthy (get r ''local_sidereal_time''))"

text \<open>High signal; the \<^verbatim>\<open>or\<close> chain stops at the first truthy operand.\<close>

definition is_high_signal :: "raw \<Rightarrow> pyerror + bool" where
  "is_high_signal r =
     (if truthy (get r ''physiological_effects'') then Inr True
      else if truthy (get r ''em_interference'') then Inr True
      else if truthy (get r ''earthquake_nearby'') then Inr True
      else key_gt r ''witness_count'' 1)"

text \<open>
  The numeric value by which two finite scores are ordered. \<^verbatim>\<open>quality_score\<close> only
  returns finite numbers (lemma \<open>quality_score_fin\<close> below), so the value given to the
  other floats is never used.
\<close>

fun num_val :: "pynum \<Rightarrow> rat" where
  "num_val (PInt n) = of_int n"
| "num_val (PFloat (Fin x)) = x"
| "num_val _ = 0"

text \<open>
  \<^verbatim>\<open>list.sort(key=quality_score, reverse=True)\<close>: the keys are computed first, one call
  per record in list order; the sort is stable, also in reverse (records with equal keys
  keep their order).
\<close>

definition sort_by_quality :: "raw list \<Rightarrow> pyerror + raw list" where
  "sort_by_quality rs =
     bindE (mapE quality_score rs) (\<lambda>keys.
     Inr (map snd (sort_key (\<lambda>kr. - num_val (fst kr)) (zip keys rs))))"

definition select_records :: "raw list \<Rightarrow> pyerror + raw list" where
  "select_records records =
     (let tier1 = filter is_tier1 records in
      bindE (filterE is_high_signal tier1) (\<lambda>high_signal.
      bindE (sort_by_quality high_signal) (\<lambda>sorted_records.
      Inr (take MAX_RECORDS sorted_records))))"

subsection \<open>Batch insertion\<close>

text \<open>
  The database client is outside the script. A call of its insert is a function of the
  client's state and the batch that either raises an exception (\<open>Inl\<close> with its message)
  or returns, and leaves the client in a new state. The exceptions are those the loop
  catches, the subclasses of \<^verbatim>\<open>Exception\<close>; an interrupt of the process is outside the
  model. The lines printed per batch are kept as events.
\<close>

type_synonym 'db sink = "'db \<Rightarrow> investigation list \<Rightarrow> (string + unit) \<times> 'db"

datatype event =
    Imported_line nat nat nat nat
  | Failed_line nat nat string

record 'db run =
  imported :: nat
  failed :: nat
  client :: 'db
  console :: "event list"

function insert_loop :: "'db sink \<Rightarrow> investigation list \<Rightarrow> nat \<Rightarrow> 'db run \<Rightarrow> 'db run" where
  "insert_loop sink investigations i st =
     (if i < length investigations then
        (let batch = take BATCH_SIZE (drop i investigations);
             batch_num = i div BATCH_SIZE + 1;
             total_batches = (length investigations + BATCH_SIZE - 1) div BATCH_SIZE;
             outcome = sink (client st) batch
         in insert_loop sink investigations (i + BATCH_SIZE)
              (case fst outcome of
                 Inr _ \<Rightarrow>
                   st\<lparr> imported := imported st + length batch,
                       client := snd outcome,
                       console := console st @
                         [Imported_line batch_num total_batches (length batch)
                            (imported st + length batch)] \<rparr>
               | Inl e \<Rightarrow>
                   st\<lparr> failed := failed st + length batch,
                       client := snd outcome,
                       console := console st @ [Failed_line batch_num total_batches e] \<rparr>))
      else st)"
  by pat_completeness auto
termination
  by (relation "measure (\<lambda>(sink, investigations, i, st). length investigations - i)")
     (auto simp: BATCH_SIZE_def)

record 'db outcome =
  selected :: "raw list"
  investigations :: "investigation list"
  final :: "'db run"

definition main :: "(json \<Rightarrow> string) \<Rightarrow> 'db sink \<Rightarrow> 'db \<Rightarrow> raw list \<Rightarrow> pyerror + 'db outcome" where
  "main render sink db0 records =
     bindE (select_records records) (\<lambda>sel.
     bindE (mapE (transform_record render) sel) (\<lambda>invs.
     Inr \<lparr> selected = sel,
           investigations = invs,
           final = insert_loop sink invs 0
                     \<lparr> imported = 0, failed = 0, client = db0, console = [] \<rparr> \<rparr>))"

section \<open>Well-typed fields\<close>

text \<open>A value that Python compares with an integer without raising.\<close>

definition numeric :: "json \<Rightarrow> bool" where
  "numeric v = (num_of v \<noteq> None)"

definition is_float :: "json \<Rightarrow> bool" where
  "is_float v = (case v of JFloat f \<Rightarrow> True | _ \<Rightarrow> False)"

fun is_fin :: "pynum \<Rightarrow> bool" where
  "is_fin (PInt n) = True"
| "is_fin (PFloat (Fin x)) = True"
| "is_fin _ = False"

fun is_int :: "pynum \<Rightarrow> bool" where
  "is_int (PInt n) = True"
| "is_int _ = False"

text \<open>A score between two integer bounds: an \<^verbatim>\<open>int\<close> or a finite \<^verbatim>\<open>float\<close>.\<close>

definition score_in :: "int \<Rightarrow> int \<Rightarrow> pynum \<Rightarrow> bool" where
  "score_in A B v =
     (case v of
        PInt n \<Rightarrow> A \<le> n \<and> n \<le> B
      | PFloat (Fin y) \<Rightarrow> of_int A \<le> y \<and> y \<le> of_int B
      | _ \<Rightarrow> False)"

section \<open>The scoring rules in the words of the specification\<close>

text \<open>
  Triage terms, each present only where it applies: \<open>min(2, witness_count - 1)\<close> if the
  witness count is present and above 1; 1 if the duration is present and above 0; 2 if
  physical or physiological effects are truthy; 1 if EM interference is truthy; 1 for a
  source.
\<close>

definition spec_witness_term :: "raw \<Rightarrow> pynum option" where
  "spec_witness_term r =
     (case num_of (get r ''witness_count'') of
        Some w \<Rightarrow> if num_lt (PInt 1) w then Some (num_min (PInt 2) (num_sub w (PInt 1))) else None
      | None \<Rightarrow> None)"

definition spec_duration_term :: "raw \<Rightarrow> pynum option" where
  "spec_duration_term r =
     (case num_of (get r ''duration_seconds'') of
        Some d \<Rightarrow> if num_lt (PInt 0) d then Some (PInt 1) else None
      | None \<Rightarrow> None)"

definition spec_effects_term :: "raw \<Rightarrow> pynum option" where
  "spec_effects_term r =
     (if truthy (get r ''physical_effects'') \<or> truthy (get r ''physiological_effects'')
      then Some (PInt 2) else None)"

definition spec_em_term :: "raw \<Rightarrow> pynum option" where
  "spec_em_term r = (if truthy (get r ''em_interference'') then Some (PInt 1) else None)"

definition spec_source_term :: "raw \<Rightarrow> pynum option" where
  "spec_source_term r = (if truthy (get r ''source'') then Some (PInt 1) else None)"

text \<open>Adding a term where it applies.\<close>

fun add_term :: "pynum \<Rightarrow> pynum option \<Rightarrow> pynum" where
  "add_term s None = s"
| "add_term s (Some k) = num_add s k"

text \<open>
  The coordinate term plus the remaining applicable terms, in the order of the rule,
  clamped to 10.
\<close>

definition spec_triage :: "pynum \<Rightarrow> raw \<Rightarrow> pynum" where
  "spec_triage coords r =
     num_min (PInt 10)
       (add_term (add_term (add_term (add_term (add_term coords (spec_witness_term r))
          (spec_duration_term r)) (spec_effects_term r)) (spec_em_term r)) (spec_source_term r))"

text \<open>
  Confound terms: for a present airport distance 40 below 10, else 25 below 30, else 10
  below 50, else 0; for a present military base distance 30 below 30, else 15 below 50,
  else 0; minus 20 and minus 15 for the two effect flags; clamped to 0..100.
\<close>

definition spec_airport_term :: "json \<Rightarrow> int" where
  "spec_airport_term a =
     (case num_of a of
        Some x \<Rightarrow> if num_lt x (PInt 10) then 40 else if num_lt x (PInt 30) then 25
                  else if num_lt x (PInt 50) then 10 else 0
      | None \<Rightarrow> 0)"

definition spec_military_term :: "json \<Rightarrow> int" where
  "spec_military_term m =
     (case num_of m of
        Some x \<Rightarrow> if num_lt x (PInt 30) then 30 else if num_lt x (PInt 50) then 15 else 0
      | None \<Rightarrow> 0)"

definition spec_confound :: "raw \<Rightarrow> int" where
  "spec_confound r =
     max 0 (min 100
       (spec_airport_term (get r ''airport_nearby_km'')
        + spec_military_term (get r ''military_base_nearby_km'')
        - (if truthy (get r ''physiological_effects'') then 20 else 0)
        - (if truthy (get r ''em_interference'') then 15 else 0)))"

section \<open>Reading the nested payload\<close>

text \<open>The value stored under a key of a JSON object, and the values an object holds.\<close>

definition obj_get :: "json \<Rightarrow> string \<Rightarrow> json option" where
  "obj_get v k = (case v of JObj kvs \<Rightarrow> map_of kvs k | _ \<Rightarrow> None)"

definition obj_values :: "json \<Rightarrow> json list" where
  "obj_values v = (case v of JObj kvs \<Rightarrow> map snd kvs | _ \<Rightarrow> [])"

section \<open>Batches in the words of the specification\<close>

text \<open>
  The selected records cut into consecutive batches of a fixed size, the last one
  possibly shorter.
\<close>

function chunks :: "nat \<Rightarrow> 'a list \<Rightarrow> 'a list list" where
  "chunks n xs = (if n = 0 \<or> xs = [] then [] else take n xs # chunks n (drop n xs))"
  by pat_completeness auto
termination
  by (relation "measure (\<lambda>(n, xs). length xs)") auto

text \<open>
  Passing a list of batches to the client one after the other, whatever each call
  returns: the batch with the result of its call, and the client's state at the end.
\<close>

fun attempts :: "'db sink \<Rightarrow> 'db \<Rightarrow> investigation list list
    \<Rightarrow> (investigation list \<times> (string + unit)) list" where
  "attempts sink d [] = []"
| "attempts sink d (b # bs) = (b, fst (sink d b)) # attempts sink (snd (sink d b)) bs"

fun client_after :: "'db sink \<Rightarrow> 'db \<Rightarrow> investigation list list \<Rightarrow> 'db" where
  "client_after sink d [] = d"
| "client_after sink d (b # bs) = client_after sink (snd (sink d b)) bs"

fun event_batch :: "event \<Rightarrow> nat" where
  "event_batch (Imported_line k n m t) = k"
| "event_batch (Failed_line k n e) = k"

fun event_failed :: "event \<Rightarrow> bool" where
  "event_failed (Imported_line k n m t) = False"
| "event_failed (Failed_line k n e) = True"

text \<open>The number of records in the batches whose call raised, and in those whose call returned.\<close>

definition failed_total :: "(investigation list \<times> (string + unit)) list \<Rightarrow> nat" where
  "failed_total att = sum_list (map (\<lambda>a. length (fst a)) (filter (\<lambda>a. isl (snd a)) att))"

definition imported_total :: "(investigation list \<times> (string + unit)) list \<Rightarrow> nat" where
  "imported_total att = sum_list (map (\<lambda>a. length (fst a)) (filter (\<lambda>a. \<not> isl (snd a)) att))"

section \<open>Sample records\<close>


definition rich_record :: raw where
  "rich_record =
     [(''latitude'', JFloat (Fin (79 / 2))), (''longitude'', JFloat (Fin (- 239 / 2))),
      (''local_sidereal_time'', JFloat (Fin (25 / 2))),
      (''witness_count'', JInt 3), (''duration_seconds'', JInt 120),
      (''physiological_effects'', JBool True), (''em_interference'', JBool True),
      (''airport_nearby_km'', JFloat (Fin (11 / 2))), (''military_base_nearby_km'', JInt 40),
      (''source'', JStr ''NUFORC''), (''shape'', JStr ''disk''), (''city'', JStr ''Reno''),
      (''state'', JStr ''NV''), (''date_time'', JStr ''2020-05-01T00:00:00'')]"

definition equator_record :: raw where
  "equator_record =
     [(''latitude'', JInt 0), (''longitude'', JFloat (Fin (- 157 / 2))),
      (''witness_count'', JInt 2), (''source'', JStr ''NUFORC'')]"

definition two_record :: raw where
  "two_record =
     [(''latitude'', JFloat (Fin (69 / 2))), (''longitude'', JFloat (Fin (- 112))),
      (''local_sidereal_time'', JFloat (Fin (7 / 4))), (''earthquake_nearby'', JBool True)]"

definition six_record :: raw where
  "six_record =
     [(''latitude'', JFloat (Fin 51)), (''longitude'', JFloat (Fin (1 / 8))),
      (''local_sidereal_time'', JFloat (Fin 23)),
      (''physiological_effects'', JBool True), (''em_interference'', JStr ''radio static'')]"

definition quiet_record :: raw where
  "quiet_record =
     [(''latitude'', JFloat (Fin 40)), (''longitude'', JFloat (Fin (- 75))),
      (''local_sidereal_time'', JFloat (Fin 3)), (''duration_seconds'', JInt 900)]"

text \<open>
  A witness count one step below 2: the largest double below 2. Its term
  \<open>witness_count - 1\<close> is one step below 1, and 3 plus that term is half way between two
  doubles.
\<close>

definition near_two_record :: raw where
  "near_two_record =
     [(''latitude'', JFloat (Fin (79 / 2))), (''longitude'', JFloat (Fin (- 239 / 2))),
      (''witness_count'', JFloat (Fin (2 - 1 / 2 ^ 52))), (''duration_seconds'', JInt 120),
      (''physical_effects'', JBool True)]"

text \<open>
  A witness count one step above 2: 3 plus its term is again half way between two
  doubles, and the even one is the lower.
\<close>

definition above_two_record :: raw where
  "above_two_record =
     [(''latitude'', JFloat (Fin (79 / 2))), (''longitude'', JFloat (Fin (- 239 / 2))),
      (''witness_count'', JFloat (Fin (2 + 1 / 2 ^ 51)))]"

text \<open>Two records of equal ranking score, 4 as an \<^verbatim>\<open>int\<close> and 4.0 as a \<^verbatim>\<open>float\<close>.\<close>

definition four_record :: raw where
  "four_record =
     [(''latitude'', JFloat (Fin 51)), (''longitude'', JFloat (Fin (1 / 8))),
      (''local_sidereal_time'', JFloat (Fin 23)),
      (''physiological_effects'', JBool True), (''shape'', JStr ''disk'')]"

definition four_float_record :: raw where
  "four_float_record =
     [(''latitude'', JFloat (Fin 40)), (''longitude'', JFloat (Fin (- 75))),
      (''local_sidereal_time'', JFloat (Fin 3)),
      (''physiological_effects'', JBool True),
      (''witness_count'', JFloat (Fin (1 + 1 / 2 ^ 52)))]"


text \<open>A client whose first call raises and whose later calls return; its state counts the calls.\<close>

definition flaky_sink :: "nat sink" where
  "flaky_sink d b = (if d = 0 then Inl ''timeout'' else Inr (), Suc d)"

definition sample_investigation :: investigation where
  "sample_investigation =
     \<lparr> user_id = SYSTEM_USER_ID, investigation_type = ''ufo'', title = ''UFO - Unknown,  (Unknown)'',
       description = ''UFO sighting report'', raw_data = JObj [], triage_score = PInt 0,
       triage_status = ''provisional'', triage_notes = [] \<rparr>"

section \<open>Facts about values and guards\<close>

lemma subscript_truthy: "truthy (get r k) \<Longrightarrow> subscript r k = Inr (get r k)"
  by (auto simp: get_def subscript_def split: option.splits)

lemma key_gt_falsy: "\<not> truthy (get r k) \<Longrightarrow> key_gt r k n = Inr False"
  by (simp add: key_gt_def)

lemma key_gt_num:
  "num_of (get r k) = Some x \<Longrightarrow> key_gt r k n = Inr (truthy (get r k) \<and> num_lt (PInt n) x)"
  by (simp add: key_gt_def subscript_truthy bindE_def gt_const_def)

lemma key_gt_cases:
  assumes "truthy (get r k) \<longrightarrow> numeric (get r k)" and "0 \<le> n"
  obtains "key_gt r k n = Inr False"
      "\<And>x. num_of (get r k) = Some x \<Longrightarrow> \<not> num_lt (PInt n) x"
  | x where "truthy (get r k)" "num_of (get r k) = Some x" "num_lt (PInt n) x"
      "key_gt r k n = Inr True"
proof (cases "truthy (get r k)")
  case False
  have "\<not> num_lt (PInt n) x" if "num_of (get r k) = Some x" for x
    using False that \<open>0 \<le> n\<close>
    by (cases "get r k"; cases x) (auto simp: num_lt_def split: if_splits)
  with False show ?thesis using that(1) key_gt_falsy by blast
next
  case True
  then obtain x where x: "num_of (get r k) = Some x"
    using assms(1) by (auto simp: numeric_def)
  show ?thesis
  proof (cases "num_lt (PInt n) x")
    case True
    with \<open>truthy (get r k)\<close> x show ?thesis
      using that(2) key_gt_num[OF x, of n] by simp
  next
    case False
    with x show ?thesis using that(1) key_gt_num[OF x, of n] by simp
  qed
qed

lemma is_finE:
  assumes "is_fin u"
  obtains n where "u = PInt n" | x where "u = PFloat (Fin x)"
  using assms by (cases u rule: is_fin.cases) auto

lemma is_int_add [simp]: "is_int u \<Longrightarrow> is_int v \<Longrightarrow> is_int (num_add u v)"
  by (cases u; cases v) auto

lemma num_lt_fin: "is_fin u \<Longrightarrow> is_fin v \<Longrightarrow> num_lt u v = (num_val u < num_val v)"
  by (erule is_finE; erule is_finE; simp add: num_lt_def)

lemma num_le_fin: "is_fin u \<Longrightarrow> is_fin v \<Longrightarrow> num_le u v = (num_val u \<le> num_val v)"
  by (erule is_finE; erule is_finE; auto simp: num_le_def fl_le_def)

lemma is_int_min [simp]: "is_int u \<Longrightarrow> is_int v \<Longrightarrow> is_int (num_min u v)"
  by (simp add: num_min_def)

subsection \<open>Rounding\<close>

lemma pow2_pos [simp]: "0 < pow2 k"
  by (simp add: pow2_def)

lemma pow2_nonpos: "k \<le> 0 \<Longrightarrow> pow2 k = 1 / 2 ^ nat (- k)"
  by (auto simp: pow2_def)

lemma round_half_even_ge: "of_int i \<le> m \<Longrightarrow> i \<le> round_half_even m"
proof -
  assume "of_int i \<le> m"
  then have "i \<le> \<lfloor>m\<rfloor>" by (simp add: le_floor_iff)
  then show ?thesis by (auto simp: round_half_even_def Let_def)
qed

lemma round_half_even_le: "m \<le> of_int i \<Longrightarrow> round_half_even m \<le> i"
proof -
  assume mi: "m \<le> of_int i"
  then have f: "\<lfloor>m\<rfloor> \<le> i" by (simp add: floor_le_iff) 
  show ?thesis
  proof (cases "m = of_int \<lfloor>m\<rfloor>")
    case True
    then have "m - of_int \<lfloor>m\<rfloor> = 0" by simp
    then show ?thesis using f by (simp add: round_half_even_def Let_def)
  next
    case False
    then have "of_int \<lfloor>m\<rfloor> < m" using of_int_floor_le[of m] by (metis order_less_le)
    with mi have "(of_int \<lfloor>m\<rfloor> :: rat) < of_int i" by simp
    then have "\<lfloor>m\<rfloor> < i" by simp
    then show ?thesis by (auto simp: round_half_even_def Let_def)
  qed
qed

lemma ilog2_le:
  assumes "0 < a" "a \<le> 2 ^ 52"
  shows "ilog2 a \<le> 52"
proof (cases "1 \<le> a")
  case True
  have f0: "0 \<le> \<lfloor>a\<rfloor>" using True by simp
  have "\<lfloor>a\<rfloor> < 2 ^ 53" using assms(2) by (simp add: floor_less_iff)
  with f0 have "nat \<lfloor>a\<rfloor> < 2 ^ 53" by (simp add: nat_less_iff)
  then have "floorlog 2 (nat \<lfloor>a\<rfloor>) \<le> 53" by (simp add: floorlog_le_iff)
  with True show ?thesis by (simp add: ilog2_def)
next
  case False
  then show ?thesis by (simp add: ilog2_def)
qed

text \<open>A sum between two small non-negative integers rounds to a float between them.\<close>

lemma round_double_within:
  assumes "of_int A \<le> x" "x \<le> of_int B" "0 \<le> A" "B \<le> 2 ^ 52"
  shows "\<exists>y. round_double x = Fin y \<and> of_int A \<le> y \<and> y \<le> of_int B"
proof (cases "x = 0")
  case True
  with assms show ?thesis by (simp add: round_double_def)
next
  case False
  with assms have pos: "0 < x" by (smt (verit) of_int_0_le_iff order_less_le order_trans)
  have xb: "x \<le> 2 ^ 52"
  proof -
    have "(of_int B :: rat) \<le> of_int (2 ^ 52)" using assms(4) by (simp only: of_int_le_iff)
    with assms(2) show ?thesis by simp
  qed
  define k where "k = max (ilog2 x) (- 1022) - 52"
  have k: "k \<le> 0" using ilog2_le[OF pos xb] by (simp add: k_def)
  define P :: rat where "P = 2 ^ nat (- k)"
  have P: "0 < P" by (simp add: P_def)
  have u: "pow2 k = 1 / P" using k by (simp add: pow2_nonpos P_def)
  define n where "n = round_half_even (x * P)"
  have PI: "P = of_int (2 ^ nat (- k))" by (simp add: P_def)
  have "of_int (A * 2 ^ nat (- k)) \<le> x * P"
    using assms(1) P by (simp add: PI)
  then have lo: "A * 2 ^ nat (- k) \<le> n" unfolding n_def by (rule round_half_even_ge)
  have "x * P \<le> of_int (B * 2 ^ nat (- k))"
    using assms(2) P by (simp add: PI)
  then have hi: "n \<le> B * 2 ^ nat (- k)" unfolding n_def by (rule round_half_even_le)
  define y where "y = of_int n / P"
  have "of_int (A * 2 ^ nat (- k)) \<le> (of_int n :: rat)" using lo by (simp only: of_int_le_iff)
  then have ylo: "of_int A \<le> y" using P by (simp add: y_def PI pos_le_divide_eq)
  have "(of_int n :: rat) \<le> of_int (B * 2 ^ nat (- k))" using hi by (simp only: of_int_le_iff)
  then have yhi: "y \<le> of_int B" using P by (simp add: y_def PI pos_divide_le_eq)
  have "(of_int B :: rat) \<le> of_int (2 ^ 52)" using assms(4) by (simp only: of_int_le_iff)
  with yhi have "y < pow2 1024" by (simp add: pow2_def) 
  then have "round_double x = Fin y"
    using False pos by (simp add: round_double_def Let_def k_def[symmetric] u y_def n_def)
  with ylo yhi show ?thesis by blast
qed

lemma round_double_int:
  "0 \<le> n \<Longrightarrow> n \<le> 2 ^ 52 \<Longrightarrow> round_double (of_int n) = Fin (of_int n)"
  using round_double_within[of n "of_int n" n] by auto

text \<open>The rounded value of a positive number is not negative.\<close>

lemma round_double_pos:
  assumes "0 < x"
  shows "round_double x = PInf \<or> (\<exists>y. round_double x = Fin y \<and> 0 \<le> y)"
proof -
  define u where "u = pow2 (max (ilog2 x) (- 1022) - 52)"
  have u: "0 < u" by (simp add: u_def)
  with assms have "(of_int 0 :: rat) \<le> x / u" by simp
  then have "0 \<le> round_half_even (x / u)" by (rule round_half_even_ge)
  with u have "0 \<le> of_int (round_half_even (x / u)) * u"
    by (simp add: zero_le_mult_iff)
  then show ?thesis
    using assms by (auto simp: round_double_def Let_def u_def)
qed


lemma pow2_powi: "pow2 k = 2 powi k"
  by (simp add: pow2_def power_int_def inverse_eq_divide power_one_over)

lemma pow2_add: "pow2 (a + b) = pow2 a * pow2 b"
  by (simp add: pow2_powi power_int_add)

lemma pow2_mono: "a \<le> b \<Longrightarrow> pow2 a \<le> pow2 b"
  by (simp add: pow2_powi power_int_increasing)

lemma pow2_strict_mono: "a < b \<Longrightarrow> pow2 a < pow2 b"
  by (simp add: pow2_powi power_int_strict_increasing)

lemma pow2_nat: "pow2 (int n) = 2 ^ n"
  by (simp add: pow2_def)

lemma pow2_neg_nat: "pow2 (- int n) = 1 / 2 ^ n"
  by (auto simp: pow2_def)

text \<open>\<open>ilog2\<close> is the binary exponent.\<close>

lemma ilog2_bounds:
  assumes "0 < a"
  shows "pow2 (ilog2 a) \<le> a" and "a < pow2 (ilog2 a + 1)"
proof -
  have "pow2 (ilog2 a) \<le> a \<and> a < pow2 (ilog2 a + 1)"
  proof (cases "1 \<le> a")
    case True
    define n where "n = nat \<lfloor>a\<rfloor>"
    define fl where "fl = floorlog 2 n"
    from True have f1: "1 \<le> \<lfloor>a\<rfloor>" by simp
    then have n: "0 < n" by (simp add: n_def)
    from floorlog_bounds[OF n, of 2] have b: "2 ^ (fl - 1) \<le> n" "n < 2 ^ fl"
      by (simp_all add: fl_def)
    have fl: "0 < fl" using b(2) n by (cases fl) auto
    have e: "ilog2 a = int (fl - 1)" "ilog2 a + 1 = int fl"
      using True fl by (simp_all add: ilog2_def n_def fl_def of_nat_diff)
    have nn: "(of_nat n :: rat) = of_int \<lfloor>a\<rfloor>" using f1 by (simp add: n_def)
    have na: "of_nat n \<le> a" "a < of_nat n + 1" unfolding nn by linarith+
    have "(2::rat) ^ (fl - 1) \<le> of_nat n"
      using b(1) by (metis of_nat_le_iff of_nat_numeral of_nat_power)
    from this na(1) have 1: "pow2 (ilog2 a) \<le> a" unfolding e(1) pow2_nat by (rule order_trans)
    from b(2) have "n + 1 \<le> 2 ^ fl" by simp
    then have "(of_nat (n + 1) :: rat) \<le> of_nat (2 ^ fl)" by (simp only: of_nat_le_iff)
    then have "(of_nat n :: rat) + 1 \<le> 2 ^ fl" by simp
    with na(2) have 2: "a < pow2 (ilog2 a + 1)" unfolding e(2) pow2_nat by simp
    from 1 2 show ?thesis ..
  next
    case False
    define c where "c = nat (\<lceil>1 / a\<rceil> - 1)"
    define fl where "fl = floorlog 2 c"
    from False assms have i: "1 < 1 / a" by simp
    have "1 < \<lceil>1 / a\<rceil>" unfolding less_ceiling_iff using i by simp
    then have c1: "1 \<le> \<lceil>1 / a\<rceil> - 1" by simp
    then have c0: "0 < c" by (simp add: c_def)
    have "(of_nat c :: rat) = of_int (\<lceil>1 / a\<rceil> - 1)"
      unfolding c_def using c1 by (intro of_nat_nat) linarith
    then have cc: "(of_nat c :: rat) = of_int \<lceil>1 / a\<rceil> - 1" by simp
    have cb: "of_nat c < 1 / a" "1 / a \<le> of_nat c + 1" unfolding cc by linarith+
    from floorlog_bounds[OF c0, of 2] have b: "2 ^ (fl - 1) \<le> c" "c < 2 ^ fl"
      by (simp_all add: fl_def)
    have fl: "0 < fl" using b(2) c0 by (cases fl) auto
    have e: "ilog2 a = - int fl" "ilog2 a + 1 = - int (fl - 1)"
      using False fl by (simp_all add: ilog2_def c_def fl_def of_nat_diff)
    from b(2) have "c + 1 \<le> 2 ^ fl" by simp
    then have "(of_nat (c + 1) :: rat) \<le> of_nat (2 ^ fl)" by (simp only: of_nat_le_iff)
    then have "(of_nat c :: rat) + 1 \<le> 2 ^ fl" by simp
    with cb(2) have "1 / a \<le> 2 ^ fl" by simp
    with assms have "1 \<le> 2 ^ fl * a" by (simp add: field_simps)
    then have 1: "pow2 (ilog2 a) \<le> a" unfolding e(1) pow2_neg_nat by (simp add: field_simps)
    have "(2::rat) ^ (fl - 1) \<le> of_nat c"
      using b(1) by (metis of_nat_le_iff of_nat_numeral of_nat_power)
    from this cb(1) have "2 ^ (fl - 1) < 1 / a" by (rule le_less_trans)
    with assms have "2 ^ (fl - 1) * a < 1" by (simp add: field_simps)
    then have 2: "a < pow2 (ilog2 a + 1)" unfolding e(2) pow2_neg_nat by (simp add: field_simps)
    from 1 2 show ?thesis ..
  qed
  then show "pow2 (ilog2 a) \<le> a" and "a < pow2 (ilog2 a + 1)" by simp_all
qed

lemma ilog2_unique:
  assumes "pow2 e \<le> a" "a < pow2 (e + 1)"
  shows "ilog2 a = e"
proof -
  have "0 < a" using pow2_pos assms(1) by (rule less_le_trans)
  note b = ilog2_bounds[OF this]
  have "\<not> ilog2 a < e"
  proof
    assume "ilog2 a < e"
    then have "pow2 (ilog2 a + 1) \<le> pow2 e" by (intro pow2_mono) simp
    with assms(1) b(2) show False by simp
  qed
  moreover have "\<not> e < ilog2 a"
  proof
    assume "e < ilog2 a"
    then have "pow2 (e + 1) \<le> pow2 (ilog2 a)" by (intro pow2_mono) simp
    with assms(2) b(1) show False by simp
  qed
  ultimately show ?thesis by simp
qed

text \<open>Rounding a normal number of known exponent.\<close>

lemma round_double_at:
  assumes "pow2 e \<le> x" "x < pow2 (e + 1)" "- 1022 \<le> e" "e < 1023"
  shows "round_double x = Fin (of_int (round_half_even (x / pow2 (e - 52))) * pow2 (e - 52))"
proof -
  have x: "0 < x" using pow2_pos assms(1) by (rule less_le_trans)
  have il: "ilog2 x = e" using assms(1,2) by (rule ilog2_unique)
  define u where "u = pow2 (e - 52)"
  have u: "0 < u" by (simp add: u_def)
  have "e + 1 = 53 + (e - 52)" by simp
  then have "pow2 (e + 1) = pow2 53 * u"
    unfolding u_def pow2_add[symmetric] by (rule arg_cong)
  then have s: "pow2 (e + 1) = 2 ^ 53 * u" by (simp add: pow2_def)
  from assms(2) have "x < 2 ^ 53 * u" unfolding s .
  with u have "x / u < 2 ^ 53" by (simp add: pos_divide_less_eq)
  then have "x / u \<le> of_int (2 ^ 53)" by simp
  then have "round_half_even (x / u) \<le> 2 ^ 53" by (rule round_half_even_le)
  then have "(of_int (round_half_even (x / u)) :: rat) \<le> of_int (2 ^ 53)"
    by (simp only: of_int_le_iff)
  then have "of_int (round_half_even (x / u)) * u \<le> 2 ^ 53 * u"
    using u by simp
  also have "\<dots> = pow2 (e + 1)" by (simp add: s)
  also have "\<dots> < pow2 1024" using assms(4) by (intro pow2_strict_mono) simp
  finally have "\<not> pow2 1024 \<le> of_int (round_half_even (x / u)) * u" by simp
  then show ?thesis
    using x assms(3) by (simp add: round_double_def il Let_def u_def)
qed

lemma floor_rat_numeral: "\<lfloor>(numeral a / numeral b :: rat)\<rfloor> = numeral a div numeral b"
  by (metis floor_divide_of_int_eq of_int_numeral)

lemma round_half_even_near: "\<bar>of_int (round_half_even m) - m\<bar> \<le> 1 / 2"
proof -
  have "of_int \<lfloor>m\<rfloor> \<le> m" "m < of_int \<lfloor>m\<rfloor> + 1" by linarith+
  then show ?thesis by (auto simp: round_half_even_def Let_def)
qed

text \<open>
  The rounded value of a normal number is a multiple of the spacing at its exponent, at
  most half a spacing away.
\<close>

lemma round_double_nearest:
  assumes "pow2 e \<le> x" "x < pow2 (e + 1)" "- 1022 \<le> e" "e < 1023"
  shows "\<exists>m. round_double x = Fin (of_int m * pow2 (e - 52))
           \<and> \<bar>of_int m * pow2 (e - 52) - x\<bar> \<le> pow2 (e - 52) / 2"
proof -
  define u where "u = pow2 (e - 52)"
  define m where "m = round_half_even (x / u)"
  have u: "0 < u" by (simp add: u_def)
  have r: "round_double x = Fin (of_int m * u)"
    unfolding m_def u_def using assms by (rule round_double_at)
  have "\<bar>of_int m - x / u\<bar> \<le> 1 / 2" unfolding m_def by (rule round_half_even_near)
  then have "\<bar>of_int m - x / u\<bar> * u \<le> 1 / 2 * u" using u by (simp only: mult_le_cancel_right_pos)
  moreover have "\<bar>of_int m - x / u\<bar> * u = \<bar>of_int m * u - x\<bar>"
  proof -
    have "\<bar>of_int m - x / u\<bar> * u = \<bar>of_int m - x / u\<bar> * \<bar>u\<bar>" using u by simp
    also have "\<dots> = \<bar>(of_int m - x / u) * u\<bar>" by (simp only: abs_mult)
    also have "(of_int m - x / u) * u = of_int m * u - x" using u by (simp add: field_simps)
    finally show ?thesis .
  qed
  ultimately have "\<bar>of_int m * u - x\<bar> \<le> u / 2" by simp
  with r show ?thesis unfolding u_def by blast
qed

lemma round_double_zero: "round_double 0 = Fin 0"
  by (simp add: round_double_def)

lemmas round_eval = round_double_zero floor_rat_numeral round_double_at[of "- 1"] round_double_at[of 0] round_double_at[of 1]
  round_double_at[of 2] round_double_at[of 3] pow2_def round_half_even_def Let_def

subsection \<open>Scores between bounds\<close>

lemma score_in_PInt [simp]: "score_in A B (PInt n) = (A \<le> n \<and> n \<le> B)"
  by (simp add: score_in_def)

lemma score_in_Fin [simp]: "score_in A B (PFloat (Fin y)) = (of_int A \<le> y \<and> y \<le> of_int B)"
  by (simp add: score_in_def)

lemma score_inE:
  assumes "score_in A B v"
  obtains n where "v = PInt n" "A \<le> n" "n \<le> B"
    | y where "v = PFloat (Fin y)" "of_int A \<le> y" "y \<le> of_int B"
  using assms by (cases v rule: is_fin.cases) (auto simp: score_in_def)

lemma score_in_fin: "score_in A B v \<Longrightarrow> is_fin v"
  by (erule score_inE) auto

lemma score_in_val: "score_in A B v \<Longrightarrow> of_int A \<le> num_val v \<and> num_val v \<le> of_int B"
  by (erule score_inE) auto

lemma score_in_mono: "score_in A B v \<Longrightarrow> A' \<le> A \<Longrightarrow> B \<le> B' \<Longrightarrow> score_in A' B' v"
proof (erule score_inE)
  fix n assume "v = PInt n" "A \<le> n" "n \<le> B" "A' \<le> A" "B \<le> B'"
  then show ?thesis by simp
next
  fix y :: rat assume v: "v = PFloat (Fin y)" and y: "of_int A \<le> y" "y \<le> of_int B"
    and m: "A' \<le> A" "B \<le> B'"
  from m have "(of_int A' :: rat) \<le> of_int A" "(of_int B :: rat) \<le> of_int B'"
    by (simp_all only: of_int_le_iff)
  with y v show ?thesis by simp
qed

text \<open>The sum of two bounded non-negative scores is bounded by the sums of the bounds.\<close>

lemma score_in_add:
  assumes u: "score_in A B u" and v: "score_in C D v"
    and nn: "0 \<le> A" "0 \<le> C" and small: "B + D \<le> 2 ^ 52"
  shows "score_in (A + C) (B + D) (num_add u v)"
proof -
  have fl: "score_in (A + C) (B + D) (PFloat (fl_add (Fin x) (Fin y)))"
    if "of_int A \<le> x" "x \<le> of_int B" "of_int C \<le> y" "y \<le> of_int D" for x y :: rat
  proof -
    from that have "of_int (A + C) \<le> x + y" "x + y \<le> of_int (B + D)" by simp_all
    from round_double_within[OF this _ small] nn show ?thesis by auto
  qed
  have cv: "to_float (PInt n) = Fin (of_int n)" if "0 \<le> n" "n \<le> B + D" for n
    using that small by (simp add: round_double_int)
  show ?thesis
  proof (rule score_inE[OF u]; rule score_inE[OF v])
    fix n m assume "u = PInt n" "A \<le> n" "n \<le> B" "v = PInt m" "C \<le> m" "m \<le> D"
    then show ?thesis by simp
  next
    fix n and y :: rat
    assume a: "u = PInt n" "A \<le> n" "n \<le> B" "v = PFloat (Fin y)" "of_int C \<le> y" "y \<le> of_int D"
    then have "0 \<le> D" using nn by (smt (verit) of_int_le_iff order_trans)
    with a nn have c: "to_float (PInt n) = Fin (of_int n)" by (intro cv) auto
    from a have "(of_int A :: rat) \<le> of_int n" "(of_int n :: rat) \<le> of_int B"
      by (simp_all only: of_int_le_iff)
    from fl[OF this a(5,6)] a(1,4) c show ?thesis by simp
  next
    fix m and x :: rat
    assume a: "u = PFloat (Fin x)" "of_int A \<le> x" "x \<le> of_int B" "v = PInt m" "C \<le> m" "m \<le> D"
    then have "0 \<le> B" using nn by (smt (verit) of_int_le_iff order_trans)
    with a nn have c: "to_float (PInt m) = Fin (of_int m)" by (intro cv) auto
    from a have "(of_int C :: rat) \<le> of_int m" "(of_int m :: rat) \<le> of_int D"
      by (simp_all only: of_int_le_iff)
    from fl[OF a(2,3) this] a(1,4) c show ?thesis by simp
  next
    fix x y :: rat
    assume a: "u = PFloat (Fin x)" "of_int A \<le> x" "x \<le> of_int B"
      "v = PFloat (Fin y)" "of_int C \<le> y" "y \<le> of_int D"
    from fl[OF a(2,3,5,6)] a(1,4) show ?thesis by simp
  qed
qed

lemma score_in_add_const:
  "score_in A B s \<Longrightarrow> 0 \<le> A \<Longrightarrow> 0 \<le> k \<Longrightarrow> B + k \<le> 2 ^ 52 \<Longrightarrow>
   score_in A (B + k) (if c then num_add s (PInt k) else s)"
proof -
  assume a: "score_in A B s" "0 \<le> A" "0 \<le> k" "B + k \<le> 2 ^ 52"
  have "score_in (A + k) (B + k) (num_add s (PInt k))"
    by (rule score_in_add[OF a(1) _ a(2,3,4)]) simp
  with a show ?thesis by (auto intro: score_in_mono)
qed

lemma score_in_add_term:
  assumes "score_in A B s" and "\<And>k. t = Some k \<Longrightarrow> score_in 0 D k"
    and "0 \<le> A" "0 \<le> D" "B + D \<le> 2 ^ 52"
  shows "score_in A (B + D) (add_term s t)"
proof (cases t)
  case None
  with assms show ?thesis by (auto intro: score_in_mono)
next
  case (Some k)
  from score_in_add[OF assms(1) assms(2)[OF Some] assms(3) _ assms(5)]
  have "score_in (A + 0) (B + D) (num_add s k)" by simp
  with Some show ?thesis by simp
qed

lemma score_in_min:
  assumes "score_in 0 B s" "0 \<le> n"
  shows "score_in 0 n (num_min (PInt n) s)"
proof (cases "num_lt s (PInt n)")
  case False
  with assms show ?thesis by (simp add: num_min_def)
next
  case True
  show ?thesis
  proof (rule score_inE[OF assms(1)])
    fix m assume "s = PInt m" "0 \<le> m" "m \<le> B"
    with True show ?thesis by (simp add: num_min_def num_lt_def)
  next
    fix y :: rat assume "s = PFloat (Fin y)" "of_int 0 \<le> y" "y \<le> of_int B"
    with True show ?thesis by (simp add: num_min_def num_lt_def)
  qed
qed

lemma is_int_add_term:
  "is_int s \<Longrightarrow> (\<And>k. t = Some k \<Longrightarrow> is_int k) \<Longrightarrow> is_int (add_term s t)"
  by (cases t) auto

text \<open>The witness contributions, under their guard \<open>witness_count > 1\<close>.\<close>

lemma triage_witness_term:
  assumes "num_lt (PInt 1) x"
  shows "score_in 0 2 (num_min (PInt 2) (num_sub x (PInt 1)))"
    and "is_int x \<Longrightarrow> is_int (num_min (PInt 2) (num_sub x (PInt 1)))"
proof -
  show "is_int x \<Longrightarrow> is_int (num_min (PInt 2) (num_sub x (PInt 1)))"
    by (cases x) (auto simp: num_min_def)
  show "score_in 0 2 (num_min (PInt 2) (num_sub x (PInt 1)))"
  proof (cases x)
    case (PInt n)
    with assms show ?thesis by (auto simp: num_min_def num_lt_def)
  next
    case (PFloat f)
    show ?thesis
    proof (cases f)
      case (Fin q)
      with PFloat assms have q: "0 < q + - 1" by (simp add: num_lt_def)
      have one: "round_double (of_int 1) = Fin (of_int 1)" by (rule round_double_int) simp_all
      then have d: "num_sub x (PInt 1) = PFloat (round_double (q + - 1))"
        using PFloat Fin by simp
      from round_double_pos[OF q] show ?thesis
        unfolding d by (auto simp: num_min_def num_lt_def)
    next
      case PInf
      have one: "round_double (of_int 1) = Fin (of_int 1)" by (rule round_double_int) simp_all
      with PFloat PInf show ?thesis by (simp add: num_min_def num_lt_def)
    next
      case NInf
      with PFloat assms show ?thesis by (simp add: num_lt_def)
    next
      case NaN
      with PFloat assms show ?thesis by (simp add: num_lt_def)
    qed
  qed
qed

lemma quality_witness_term:
  assumes "num_lt (PInt 1) x"
  shows "score_in 1 3 (num_min (PInt 3) x)"
    and "is_int x \<Longrightarrow> is_int (num_min (PInt 3) x)"
proof -
  show "score_in 1 3 (num_min (PInt 3) x)"
    using assms by (cases x rule: is_fin.cases) (auto simp: num_min_def num_lt_def)
  show "is_int x \<Longrightarrow> is_int (num_min (PInt 3) x)"
    by (cases x) (auto simp: num_min_def)
qed

lemma not_float_int: "num_of v = Some x \<Longrightarrow> \<not> is_float v \<Longrightarrow> is_int x"
  by (cases v) (auto simp: is_float_def)

section \<open>The scorers in closed form\<close>

lemma triage_closed_form:
  assumes "truthy (get r ''witness_count'') \<longrightarrow> numeric (get r ''witness_count'')"
    and "truthy (get r ''duration_seconds'') \<longrightarrow> numeric (get r ''duration_seconds'')"
  shows "calc_triage_score r =
     Inr (spec_triage (if truthy (get r ''latitude'') \<and> truthy (get r ''longitude'')
                       then PInt 3 else PInt 0) r)"
proof -
  have d: "key_gt r ''duration_seconds'' 0 = Inr (spec_duration_term r = Some (PInt 1))"
       "spec_duration_term r = Some (PInt 1) \<or> spec_duration_term r = None"
    by (rule key_gt_cases[OF assms(2), of 0, simplified];
        auto simp: spec_duration_term_def split: option.splits)+
  show ?thesis
  proof (rule key_gt_cases[OF assms(1), of 1, simplified])
    assume w: "key_gt r ''witness_count'' 1 = Inr False"
      "\<And>x. num_of (get r ''witness_count'') = Some x \<Longrightarrow> \<not> num_lt (PInt 1) x"
    then have "spec_witness_term r = None"
      by (auto simp: spec_witness_term_def split: option.splits)
    then show ?thesis using d
      by (auto simp: calc_triage_score_def Let_def bindE_def w spec_triage_def
          spec_effects_term_def spec_em_term_def spec_source_term_def)
  next
    fix x assume w: "truthy (get r ''witness_count'')" "num_of (get r ''witness_count'') = Some x"
      "num_lt (PInt 1) x" "key_gt r ''witness_count'' 1 = Inr True"
    then have "spec_witness_term r = Some (num_min (PInt 2) (num_sub x (PInt 1)))"
      by (auto simp: spec_witness_term_def split: option.splits)
    then show ?thesis using d
      by (auto simp: calc_triage_score_def Let_def bindE_def w spec_triage_def subscript_truthy
          sub_const_def spec_effects_term_def spec_em_term_def spec_source_term_def)
  qed
qed

lemma confound_closed_form:
  assumes "get r ''airport_nearby_km'' = JNull \<or> numeric (get r ''airport_nearby_km'')"
    and "get r ''military_base_nearby_km'' = JNull \<or> numeric (get r ''military_base_nearby_km'')"
  shows "calc_confound_score r = Inr (spec_confound r)"
proof -
  define a where "a = get r ''airport_nearby_km''"
  define m where "m = get r ''military_base_nearby_km''"
  have an: "a \<noteq> JNull \<Longrightarrow> \<exists>x. num_of a = Some x"
    and mn: "m \<noteq> JNull \<Longrightarrow> \<exists>x. num_of m = Some x"
    using assms by (auto simp: a_def m_def numeric_def)
  show ?thesis
    unfolding calc_confound_score_def spec_confound_def Let_def a_def[symmetric] m_def[symmetric]
    using an mn
    by (cases "a = JNull"; cases "m = JNull")
       (auto simp: bindE_def lt_const_def spec_airport_term_def spec_military_term_def)
qed

lemma spec_terms_in:
  "spec_witness_term r = Some k \<Longrightarrow> score_in 0 2 k"
  "spec_duration_term r = Some k \<Longrightarrow> score_in 0 1 k"
  "spec_effects_term r = Some k \<Longrightarrow> score_in 0 2 k"
  "spec_em_term r = Some k \<Longrightarrow> score_in 0 1 k"
  "spec_source_term r = Some k \<Longrightarrow> score_in 0 1 k"
  using triage_witness_term(1)
  by (auto simp: spec_witness_term_def spec_duration_term_def spec_effects_term_def
      spec_em_term_def spec_source_term_def split: option.splits if_splits)

lemma spec_terms_int:
  "\<not> is_float (get r ''witness_count'') \<Longrightarrow> spec_witness_term r = Some k \<Longrightarrow> is_int k"
  "spec_duration_term r = Some k \<Longrightarrow> is_int k"
  "spec_effects_term r = Some k \<Longrightarrow> is_int k"
  "spec_em_term r = Some k \<Longrightarrow> is_int k"
  "spec_source_term r = Some k \<Longrightarrow> is_int k"
  using triage_witness_term(2) not_float_int[of "get r ''witness_count''"]
  by (auto simp: spec_witness_term_def spec_duration_term_def spec_effects_term_def
      spec_em_term_def spec_source_term_def split: option.splits if_splits)

lemma spec_triage_props:
  assumes "b = PInt 3 \<or> b = PInt 0"
  shows "score_in 0 10 (spec_triage b r)"
    and "\<not> is_float (get r ''witness_count'') \<Longrightarrow> is_int (spec_triage b r)"
proof -
  define s1 where "s1 = add_term b (spec_witness_term r)"
  define s2 where "s2 = add_term s1 (spec_duration_term r)"
  define s3 where "s3 = add_term s2 (spec_effects_term r)"
  define s4 where "s4 = add_term s3 (spec_em_term r)"
  define s5 where "s5 = add_term s4 (spec_source_term r)"
  have t: "spec_triage b r = num_min (PInt 10) s5"
    by (simp add: spec_triage_def s5_def s4_def s3_def s2_def s1_def)
  have b: "score_in 0 3 b" using assms by auto
  have 1: "score_in 0 5 s1"
    unfolding s1_def using score_in_add_term[OF b spec_terms_in(1)[of r]] by simp
  have 2: "score_in 0 6 s2"
    unfolding s2_def using score_in_add_term[OF 1 spec_terms_in(2)[of r]] by simp
  have 3: "score_in 0 8 s3"
    unfolding s3_def using score_in_add_term[OF 2 spec_terms_in(3)[of r]] by simp
  have 4: "score_in 0 9 s4"
    unfolding s4_def using score_in_add_term[OF 3 spec_terms_in(4)[of r]] by simp
  have 5: "score_in 0 10 s5"
    unfolding s5_def using score_in_add_term[OF 4 spec_terms_in(5)[of r]] by simp
  show "score_in 0 10 (spec_triage b r)"
    unfolding t by (rule score_in_min[OF 5]) simp
  show "is_int (spec_triage b r)" if f: "\<not> is_float (get r ''witness_count'')"
  proof -
    have "is_int b" using assms by auto
    then have "is_int s1" unfolding s1_def by (rule is_int_add_term) (rule spec_terms_int(1)[OF f])
    then have "is_int s2" unfolding s2_def by (rule is_int_add_term) (rule spec_terms_int(2))
    then have "is_int s3" unfolding s3_def by (rule is_int_add_term) (rule spec_terms_int(3))
    then have "is_int s4" unfolding s4_def by (rule is_int_add_term) (rule spec_terms_int(4))
    then have "is_int s5" unfolding s5_def by (rule is_int_add_term) (rule spec_terms_int(5))
    then show ?thesis unfolding t by simp
  qed
qed

lemma spec_confound_bounds: "0 \<le> spec_confound r" "spec_confound r \<le> 100"
  by (simp_all add: spec_confound_def)

text \<open>The ranking score: an integer base of at most 10, then the three guarded terms.\<close>

lemma quality_score_struct:
  "\<exists>n c3. 0 \<le> n \<and> n \<le> 10 \<and> quality_score r =
     bindE (key_gt r ''witness_count'' 1) (\<lambda>c.
     bindE (if c then bindE (subscript r ''witness_count'') (\<lambda>w.
                      bindE (min_const 3 w) (\<lambda>m. Inr (num_add (PInt n) m)))
            else Inr (PInt n)) (\<lambda>score.
     bindE (key_gt r ''duration_seconds'' 60) (\<lambda>c.
     Inr (if c3 then num_add (if c then num_add score (PInt 1) else score) (PInt 1)
          else (if c then num_add score (PInt 1) else score)))))"
proof -
  define c3 where "c3 = (truthy (get r ''shape'')
     \<and> get r ''shape'' \<notin> set [JStr ''unknown'', JStr ''other'', JStr ''light''])"
  define n :: int where "n = (if truthy (get r ''physiological_effects'') then 3 else 0)
     + (if truthy (get r ''em_interference'') then 3 else 0)
     + (if truthy (get r ''earthquake_nearby'') then 2 else 0)
     + (if truthy (get r ''geomagnetic_storm'') then 2 else 0)"
  have shape: "(if truthy (get r ''shape'')
         then bindE (subscript r ''shape'') (\<lambda>s.
                Inr (s \<notin> set [JStr ''unknown'', JStr ''other'', JStr ''light'']))
         else Inr False) = Inr c3"
    by (simp add: c3_def subscript_truthy bindE_def)
  have "0 \<le> n" "n \<le> 10" by (simp_all add: n_def)
  moreover have "quality_score r =
     bindE (key_gt r ''witness_count'' 1) (\<lambda>c.
     bindE (if c then bindE (subscript r ''witness_count'') (\<lambda>w.
                      bindE (min_const 3 w) (\<lambda>m. Inr (num_add (PInt n) m)))
            else Inr (PInt n)) (\<lambda>score.
     bindE (key_gt r ''duration_seconds'' 60) (\<lambda>c.
     Inr (if c3 then num_add (if c then num_add score (PInt 1) else score) (PInt 1)
          else (if c then num_add score (PInt 1) else score)))))"
    unfolding quality_score_def Let_def shape
    by (cases "truthy (get r ''physiological_effects'')"; cases "truthy (get r ''em_interference'')";
        cases "truthy (get r ''earthquake_nearby'')"; cases "truthy (get r ''geomagnetic_storm'')";
        simp add: n_def bindE_def cong: if_cong)
  ultimately show ?thesis by blast
qed

lemma quality_score_ok:
  assumes "truthy (get r ''witness_count'') \<longrightarrow> numeric (get r ''witness_count'')"
    and "truthy (get r ''duration_seconds'') \<longrightarrow> numeric (get r ''duration_seconds'')"
  shows "\<exists>q. quality_score r = Inr q \<and> is_fin q \<and> 0 \<le> num_val q
     \<and> (\<not> is_float (get r ''witness_count'') \<longrightarrow> is_int q)"
proof -
  obtain c where d: "key_gt r ''duration_seconds'' 60 = Inr c"
    using key_gt_cases[OF assms(2), of 60, simplified] by metis
  obtain n c3 where n: "0 \<le> n" "n \<le> 10" and q: "quality_score r =
     bindE (key_gt r ''witness_count'' 1) (\<lambda>c.
     bindE (if c then bindE (subscript r ''witness_count'') (\<lambda>w.
                      bindE (min_const 3 w) (\<lambda>m. Inr (num_add (PInt n) m)))
            else Inr (PInt n)) (\<lambda>score.
     bindE (key_gt r ''duration_seconds'' 60) (\<lambda>c.
     Inr (if c3 then num_add (if c then num_add score (PInt 1) else score) (PInt 1)
          else (if c then num_add score (PInt 1) else score)))))"
    using quality_score_struct[of r] by blast
  have tail: "\<exists>q. quality_score r = Inr q \<and> is_fin q \<and> 0 \<le> num_val q
       \<and> (\<not> is_float (get r ''witness_count'') \<longrightarrow> is_int q)"
    if s: "score_in 0 13 s" "\<not> is_float (get r ''witness_count'') \<Longrightarrow> is_int s"
      and v: "quality_score r = Inr (if c3 then num_add (if c then num_add s (PInt 1) else s) (PInt 1)
          else (if c then num_add s (PInt 1) else s))" for s
  proof -
    have 1: "score_in 0 14 (if c then num_add s (PInt 1) else s)"
      using score_in_add_const[OF s(1), of 1 c] by simp
    have 2: "score_in 0 15 (if c3 then num_add (if c then num_add s (PInt 1) else s) (PInt 1)
          else (if c then num_add s (PInt 1) else s))"
      using score_in_add_const[OF 1, of 1 c3] by simp
    have 3: "is_int (if c3 then num_add (if c then num_add s (PInt 1) else s) (PInt 1)
          else (if c then num_add s (PInt 1) else s))" if "\<not> is_float (get r ''witness_count'')"
      using s(2)[OF that] by simp
    from score_in_fin[OF 2] score_in_val[OF 2] 3 v show ?thesis by simp
  qed
  show ?thesis
  proof (rule key_gt_cases[OF assms(1), of 1, simplified])
    assume w: "key_gt r ''witness_count'' 1 = Inr False"
    show ?thesis
      by (rule tail[of "PInt n"]) (use n in \<open>simp_all add: q w d bindE_def\<close>)
  next
    fix x assume w: "truthy (get r ''witness_count'')" "num_of (get r ''witness_count'') = Some x"
      "num_lt (PInt 1) x" "key_gt r ''witness_count'' 1 = Inr True"
    note t = quality_witness_term[OF w(3)]
    have i: "\<not> is_float (get r ''witness_count'') \<Longrightarrow> is_int x"
      using w(2) by (rule not_float_int)
    have "score_in (0 + 1) (10 + 3) (num_add (PInt n) (num_min (PInt 3) x))"
      by (rule score_in_add[OF _ t(1)]) (use n in simp_all)
    then have "score_in 0 13 (num_add (PInt n) (num_min (PInt 3) x))"
      by (rule score_in_mono) simp_all
    then show ?thesis
      by (rule tail) (use i t(2) in \<open>simp_all add: q w d bindE_def subscript_truthy min_const_def\<close>)
  qed
qed

lemma key_gt_Inr: "key_gt r k n = Inr b \<Longrightarrow> truthy (get r k) \<longrightarrow> numeric (get r k)"
  by (auto simp: key_gt_def subscript_truthy bindE_def gt_const_def numeric_def
      split: option.splits)

lemma bindE_Inr: "bindE m f = Inr y \<Longrightarrow> \<exists>x. m = Inr x \<and> f x = Inr y"
  by (cases m) (auto simp: bindE_def)

lemma quality_score_fin:
  assumes "quality_score r = Inr q"
  shows "is_fin q"
proof -
  from assms obtain c1 where c1: "key_gt r ''witness_count'' 1 = Inr c1"
    unfolding quality_score_def Let_def by (blast dest: bindE_Inr)
  from assms obtain c2 where c2: "key_gt r ''duration_seconds'' 60 = Inr c2"
    unfolding quality_score_def Let_def by (blast dest: bindE_Inr)
  from quality_score_ok[OF key_gt_Inr[OF c1] key_gt_Inr[OF c2]] assms show ?thesis by auto
qed

text \<open>A scorer that returns has compared numbers only.\<close>

lemma triage_Inr_typed:
  assumes "calc_triage_score r = Inr v"
  shows "truthy (get r ''witness_count'') \<longrightarrow> numeric (get r ''witness_count'')"
    and "truthy (get r ''duration_seconds'') \<longrightarrow> numeric (get r ''duration_seconds'')"
proof -
  from assms obtain c1 where c1: "key_gt r ''witness_count'' 1 = Inr c1"
    unfolding calc_triage_score_def Let_def by (blast dest: bindE_Inr)
  from assms obtain c2 where c2: "key_gt r ''duration_seconds'' 0 = Inr c2"
    unfolding calc_triage_score_def Let_def by (blast dest: bindE_Inr)
  show "truthy (get r ''witness_count'') \<longrightarrow> numeric (get r ''witness_count'')"
    using c1 by (rule key_gt_Inr)
  show "truthy (get r ''duration_seconds'') \<longrightarrow> numeric (get r ''duration_seconds'')"
    using c2 by (rule key_gt_Inr)
qed

lemma lt_const_Inr: "lt_const v n = Inr b \<Longrightarrow> numeric v"
  by (auto simp: lt_const_def numeric_def split: option.splits)

lemma confound_Inr_typed:
  assumes "calc_confound_score r = Inr c"
  shows "get r ''airport_nearby_km'' = JNull \<or> numeric (get r ''airport_nearby_km'')"
    and "get r ''military_base_nearby_km'' = JNull \<or> numeric (get r ''military_base_nearby_km'')"
proof -
  from assms obtain s where a: "(if get r ''airport_nearby_km'' \<noteq> JNull then
                  bindE (lt_const (get r ''airport_nearby_km'') 10) (\<lambda>c1.
                  if c1 then Inr (0 + 40)
                  else bindE (lt_const (get r ''airport_nearby_km'') 30) (\<lambda>c2.
                  if c2 then Inr (0 + 25)
                  else bindE (lt_const (get r ''airport_nearby_km'') 50) (\<lambda>c3.
                  if c3 then Inr (0 + 10) else Inr 0)))
                else Inr (0::int)) = Inr s"
    and "(let military = get r ''military_base_nearby_km''
         in bindE (if military \<noteq> JNull then
                     bindE (lt_const military 30) (\<lambda>c1.
                     if c1 then Inr (s + 30)
                     else bindE (lt_const military 50) (\<lambda>c2.
                     if c2 then Inr (s + 15) else Inr s))
                   else Inr s) (\<lambda>score.
         let score = (if truthy (get r ''physiological_effects'') then score - 20 else score);
             score = (if truthy (get r ''em_interference'') then score - 15 else score)
         in Inr (max 0 (min 100 score)))) = Inr c"
    unfolding calc_confound_score_def Let_def by (blast dest: bindE_Inr)
  then obtain s' where m: "(if get r ''military_base_nearby_km'' \<noteq> JNull then
                     bindE (lt_const (get r ''military_base_nearby_km'') 30) (\<lambda>c1.
                     if c1 then Inr (s + 30)
                     else bindE (lt_const (get r ''military_base_nearby_km'') 50) (\<lambda>c2.
                     if c2 then Inr (s + 15) else Inr s))
                   else Inr s) = Inr s'"
    unfolding Let_def by (blast dest: bindE_Inr)
  show "get r ''airport_nearby_km'' = JNull \<or> numeric (get r ''airport_nearby_km'')"
    using a by (auto split: if_splits dest!: bindE_Inr lt_const_Inr)
  show "get r ''military_base_nearby_km'' = JNull \<or> numeric (get r ''military_base_nearby_km'')"
    using m by (auto split: if_splits dest!: bindE_Inr lt_const_Inr)
qed

section \<open>Facts about the text sanitizer\<close>

lemma strip_prefix: "\<exists>zs. dropWhile P s = rev (dropWhile P (rev (dropWhile P s))) @ zs"
proof -
  have "rev (dropWhile P s)
      = takeWhile P (rev (dropWhile P s)) @ dropWhile P (rev (dropWhile P s))"
    by simp
  then have "dropWhile P s
      = rev (takeWhile P (rev (dropWhile P s)) @ dropWhile P (rev (dropWhile P s)))"
    by (metis rev_rev_ident)
  then show ?thesis by (metis rev_append)
qed

lemma strip_hd: "strip s \<noteq> [] \<Longrightarrow> \<not> is_space (hd (strip s))"
proof -
  assume ne: "strip s \<noteq> []"
  obtain zs where zs: "dropWhile is_space s = strip s @ zs"
    using strip_prefix[of is_space s] by (auto simp: strip_def)
  with ne have "dropWhile is_space s \<noteq> []" by auto
  then have "\<not> is_space (hd (dropWhile is_space s))" by (rule hd_dropWhile)
  moreover have "hd (dropWhile is_space s) = hd (strip s)" using zs ne by simp
  ultimately show ?thesis by simp
qed

lemma strip_last: "strip s \<noteq> [] \<Longrightarrow> \<not> is_space (last (strip s))"
proof -
  assume ne: "strip s \<noteq> []"
  let ?d = "dropWhile is_space (rev (dropWhile is_space s))"
  from ne have d: "?d \<noteq> []" by (simp add: strip_def)
  then have "\<not> is_space (hd ?d)" by (rule hd_dropWhile)
  moreover have "last (strip s) = hd ?d" using d by (simp add: strip_def last_rev)
  ultimately show ?thesis by simp
qed

lemma strip_set: "set (strip s) \<subseteq> set s"
proof
  fix x assume "x \<in> set (strip s)"
  then have "x \<in> set (dropWhile is_space (rev (dropWhile is_space s)))"
    by (simp add: strip_def)
  then have "x \<in> set (rev (dropWhile is_space s))" by (rule set_dropWhileD)
  then have "x \<in> set (dropWhile is_space s)" by simp
  then show "x \<in> set s" by (rule set_dropWhileD)
qed

lemma replace_nul_set: "CHR 0x00 \<notin> set (replace_nul s)"
  by (simp add: replace_nul_def)

lemma clean_text_falsy: "\<not> truthy v \<Longrightarrow> clean_text render v n = []"
  by (simp add: clean_text_def)

lemma clean_text_truthy:
  "truthy v \<Longrightarrow> 0 \<le> n \<Longrightarrow>
   clean_text render v n = take (nat n) (strip (replace_nul (py_str render v)))"
  by (simp add: clean_text_def slice_to_def)

lemma clean_text_no_nul: "CHR 0x00 \<notin> set (clean_text render v n)"
proof (cases "truthy v")
  case True
  have "set (clean_text render v n) \<subseteq> set (strip (replace_nul (py_str render v)))"
    using True by (auto simp: clean_text_def slice_to_def dest: in_set_takeD)
  then show ?thesis using strip_set replace_nul_set by blast
qed (simp add: clean_text_def)

lemma clean_text_length: "0 \<le> n \<Longrightarrow> length (clean_text render v n) \<le> nat n"
  by (simp add: clean_text_def slice_to_def)

lemma clean_text_hd:
  assumes "0 \<le> n" "clean_text render v n \<noteq> []"
  shows "\<not> is_space (hd (clean_text render v n))"
proof -
  from assms have t: "truthy v" by (auto simp: clean_text_def split: if_splits)
  let ?s = "strip (replace_nul (py_str render v))"
  have c: "clean_text render v n = take (nat n) ?s" using t assms(1) by (rule clean_text_truthy)
  with assms(2) have "?s \<noteq> []" "nat n \<noteq> 0" by auto
  then have "hd (take (nat n) ?s) = hd ?s" by (cases ?s; cases "nat n") auto
  with strip_hd[OF \<open>?s \<noteq> []\<close>] c show ?thesis by simp
qed

lemmas eval_scorers =
  quality_score_def calc_triage_score_def calc_confound_score_def key_gt_def get_def
  subscript_def bindE_def gt_const_def lt_const_def min_const_def sub_const_def
  num_lt_def num_le_def fl_le_def num_min_def Let_def round_eval

lemmas eval_text =
  clean_text_def py_str_def replace_nul_def strip_def is_space_def slice_to_def get_default_def

lemma get_default_clean:
  "clean_text render (get_default r k (JStr [])) n = clean_text render (get r k) n"
  by (simp add: get_default_def get_def clean_text_def split: option.splits)

section \<open>Facts about the selector\<close>

lemma filterE_Inr: "filterE p xs = Inr ys \<Longrightarrow> ys = filter (\<lambda>x. p x = Inr True) xs"
proof (induction xs arbitrary: ys)
  case Nil
  then show ?case by simp
next
  case (Cons x xs)
  from Cons.prems obtain b where b: "p x = Inr b"
    by (auto dest: bindE_Inr)
  with Cons.prems obtain zs where zs: "filterE p xs = Inr zs"
    and ys: "ys = (if b then x # zs else zs)"
    by (auto simp: bindE_def split: sum.splits)
  from Cons.IH[OF zs] b ys show ?case by auto
qed

lemma filterE_returns:
  "(\<And>x. x \<in> set xs \<Longrightarrow> \<exists>b. p x = Inr b) \<Longrightarrow> \<exists>ys. filterE p xs = Inr ys"
proof (induction xs)
  case Nil
  then show ?case by simp
next
  case (Cons x xs)
  then obtain b zs where "p x = Inr b" "filterE p xs = Inr zs" by (metis list.set_intros)
  then show ?case by (simp add: bindE_def)
qed

lemma mapE_Inr: "mapE f xs = Inr ys \<Longrightarrow> list_all2 (\<lambda>x y. f x = Inr y) xs ys"
proof (induction xs arbitrary: ys)
  case Nil
  then show ?case by simp
next
  case (Cons x xs)
  from Cons.prems obtain y where y: "f x = Inr y"
    by (auto dest: bindE_Inr)
  with Cons.prems obtain zs where zs: "mapE f xs = Inr zs" and ys: "ys = y # zs"
    by (auto simp: bindE_def split: sum.splits)
  from Cons.IH[OF zs] y ys show ?case by simp
qed

lemma mapE_returns:
  "(\<And>x. x \<in> set xs \<Longrightarrow> \<exists>y. f x = Inr y) \<Longrightarrow> \<exists>ys. mapE f xs = Inr ys"
proof (induction xs)
  case Nil
  then show ?case by simp
next
  case (Cons x xs)
  then obtain y zs where "f x = Inr y" "mapE f xs = Inr zs" by (metis list.set_intros)
  then show ?case by (simp add: bindE_def)
qed

lemma is_high_signal_returns:
  "truthy (get r ''witness_count'') \<longrightarrow> numeric (get r ''witness_count'') \<Longrightarrow>
   \<exists>b. is_high_signal r = Inr b"
  using key_gt_cases[of r "''witness_count''" 1] by (auto simp: is_high_signal_def)

text \<open>What a successful sort returns: the records with their keys, in descending key order.\<close>

lemma sort_by_quality_Inr:
  assumes "sort_by_quality rs = Inr srt"
  shows "\<exists>ks. length ks = length srt \<and> length srt = length rs \<and> set srt = set rs
     \<and> (\<forall>i < length srt. quality_score (srt ! i) = Inr (ks ! i) \<and> is_fin (ks ! i))
     \<and> (\<forall>i j. i < j \<and> j < length srt \<longrightarrow> num_val (ks ! j) \<le> num_val (ks ! i))"
proof -
  from assms obtain keys where keys: "mapE quality_score rs = Inr keys"
    and srt: "srt = map snd (sort_key (\<lambda>kr. - num_val (fst kr)) (zip keys rs))"
    unfolding sort_by_quality_def by (auto dest!: bindE_Inr)
  let ?L = "sort_key (\<lambda>kr. - num_val (fst kr)) (zip keys rs)"
  from mapE_Inr[OF keys] have all2: "list_all2 (\<lambda>r k. quality_score r = Inr k) rs keys" .
  then have len: "length keys = length rs" by (simp add: list_all2_lengthD)
  have setL: "set ?L = set (zip keys rs)" by simp
  have lenL: "length ?L = length rs" using len by simp
  have q: "quality_score (snd kr) = Inr (fst kr)" if "kr \<in> set ?L" for kr
  proof -
    from that setL obtain i where "i < length rs" "kr = (keys ! i, rs ! i)"
      using len by (auto simp: in_set_zip)
    with list_all2_nthD[OF all2, of i] show ?thesis by simp
  qed
  have sorted: "sorted (map (\<lambda>kr. - num_val (fst kr)) ?L)" by (rule sorted_sort_key)
  have "set srt = snd ` set (zip keys rs)" unfolding srt by simp
  also have "\<dots> = set (map snd (zip keys rs))" by simp
  also have "\<dots> = set rs" using len by simp
  finally have sset: "set srt = set rs" .
  have a: "quality_score (srt ! i) = Inr (map fst ?L ! i) \<and> is_fin (map fst ?L ! i)"
    if "i < length srt" for i
  proof -
    from that have i: "i < length ?L" by (simp add: srt)
    then have "?L ! i \<in> set ?L" by (rule nth_mem)
    from q[OF this] i have "quality_score (srt ! i) = Inr (map fst ?L ! i)"
      by (simp add: srt)
    then show ?thesis using quality_score_fin by simp
  qed
  have b: "num_val (map fst ?L ! j) \<le> num_val (map fst ?L ! i)"
    if "i < j" "j < length srt" for i j
  proof -
    from that have ij: "i < length ?L" "j < length ?L" by (simp_all add: srt)
    from sorted that ij have "map (\<lambda>kr. - num_val (fst kr)) ?L ! i
        \<le> map (\<lambda>kr. - num_val (fst kr)) ?L ! j"
      by (intro sorted_nth_mono) simp_all
    with ij show ?thesis by simp
  qed
  have "length (map fst ?L) = length srt" by (simp add: srt)
  moreover have "length srt = length rs" using lenL by (simp add: srt)
  ultimately show ?thesis using sset a b by blast
qed

lemma sort_by_quality_returns:
  assumes "\<And>r. r \<in> set rs \<Longrightarrow> \<exists>q. quality_score r = Inr q"
  shows "\<exists>srt. sort_by_quality rs = Inr srt"
proof -
  from mapE_returns[of rs quality_score] assms obtain ks where "mapE quality_score rs = Inr ks"
    by blast
  then show ?thesis by (simp add: sort_by_quality_def bindE_def)
qed

lemma select_records_Inr:
  assumes "select_records records = Inr sel"
  obtains hs srt where "filterE is_high_signal (filter is_tier1 records) = Inr hs"
    "sort_by_quality hs = Inr srt" "sel = take MAX_RECORDS srt"
  using assms unfolding select_records_def Let_def by (auto dest!: bindE_Inr)

section \<open>Facts about the batch loop\<close>

declare chunks.simps [simp del]

declare insert_loop.simps [simp del]

lemma chunks_Nil [simp]: "chunks n [] = []"
  by (subst chunks.simps) simp

lemma chunks_empty: "length xs \<le> i \<Longrightarrow> chunks n (drop i xs) = []"
  by simp

lemma chunks_drop:
  "i < length xs \<Longrightarrow>
   chunks BATCH_SIZE (drop i xs)
     = take BATCH_SIZE (drop i xs) # chunks BATCH_SIZE (drop (i + BATCH_SIZE) xs)"
  by (subst chunks.simps) (simp add: BATCH_SIZE_def add.commute)

lemma concat_chunks: "0 < n \<Longrightarrow> concat (chunks n xs) = xs"
proof (induction n xs rule: chunks.induct)
  case (1 n xs)
  show ?case
  proof (cases "xs = []")
    case True
    then show ?thesis by (subst chunks.simps) simp
  next
    case False
    with 1 have "concat (chunks n (drop n xs)) = drop n xs" by simp
    with False 1(2) show ?thesis by (subst chunks.simps) simp
  qed
qed

lemma chunks_sizes:
  "0 < n \<Longrightarrow> b \<in> set (chunks n xs) \<Longrightarrow> 0 < length b \<and> length b \<le> n"
proof (induction n xs rule: chunks.induct)
  case (1 n xs)
  from 1(3) have ne: "xs \<noteq> []" by (subst (asm) chunks.simps) (auto split: if_splits)
  with 1(2,3) have "b = take n xs \<or> b \<in> set (chunks n (drop n xs))"
    by (subst (asm) chunks.simps) (auto split: if_splits)
  then show ?case
  proof
    assume "b = take n xs"
    with ne 1(2) show ?thesis by (cases xs) auto
  next
    assume "b \<in> set (chunks n (drop n xs))"
    with 1(1)[OF _ 1(2)] ne 1(2) show ?thesis by simp
  qed
qed

lemma attempts_fst: "map fst (attempts sink d bs) = bs"
  by (induction bs arbitrary: d) auto

lemma totals_sum:
  "imported_total att + failed_total att = sum_list (map (\<lambda>a. length (fst a)) att)"
  unfolding imported_total_def failed_total_def by (induction att) auto

lemma totals_all:
  assumes "0 < n"
  shows "imported_total (attempts sink d (chunks n xs)) + failed_total (attempts sink d (chunks n xs))
     = length xs"
proof -
  have "sum_list (map (\<lambda>a. length (fst a)) (attempts sink d (chunks n xs)))
      = sum_list (map length (map fst (attempts sink d (chunks n xs))))"
    by (simp add: comp_def)
  also have "\<dots> = length (concat (chunks n xs))"
    by (simp add: attempts_fst length_concat)
  finally show ?thesis using assms by (simp add: totals_sum concat_chunks)
qed

lemma upt_step: "[a..<a + Suc n] = a # [Suc a..<Suc a + n]"
  by (simp del: upt_Suc add: upt_conv_Cons)

text \<open>One pass of the loop from index \<open>i\<close> is the run over the batches that remain.\<close>

lemma insert_loop_run:
  "failed (insert_loop sink invs i st)
     = failed st + failed_total (attempts sink (client st) (chunks BATCH_SIZE (drop i invs)))
   \<and> imported (insert_loop sink invs i st)
     = imported st + imported_total (attempts sink (client st) (chunks BATCH_SIZE (drop i invs)))
   \<and> client (insert_loop sink invs i st)
     = client_after sink (client st) (chunks BATCH_SIZE (drop i invs))
   \<and> map event_failed (console (insert_loop sink invs i st))
     = map event_failed (console st)
       @ map (\<lambda>a. isl (snd a)) (attempts sink (client st) (chunks BATCH_SIZE (drop i invs)))
   \<and> map event_batch (console (insert_loop sink invs i st))
     = map event_batch (console st)
       @ [i div BATCH_SIZE + 1 ..<
            i div BATCH_SIZE + 1 + length (chunks BATCH_SIZE (drop i invs))]"
proof (induction sink invs i st rule: insert_loop.induct)
  case (1 sink invs i st)
  show ?case
  proof (cases "i < length invs")
    case False
    then have "insert_loop sink invs i st = st" "chunks BATCH_SIZE (drop i invs) = []"
      by (simp_all add: insert_loop.simps chunks_empty)
    then show ?thesis by (simp add: failed_total_def imported_total_def)
  next
    case True
    define batch where "batch = take BATCH_SIZE (drop i invs)"
    define res where "res = sink (client st) batch"
    define st' where "st' =
      (case fst res of
         Inr _ \<Rightarrow>
           st\<lparr> imported := imported st + length batch, client := snd res,
               console := console st @
                 [Imported_line (i div BATCH_SIZE + 1)
                    ((length invs + BATCH_SIZE - 1) div BATCH_SIZE) (length batch)
                    (imported st + length batch)] \<rparr>
       | Inl e \<Rightarrow>
           st\<lparr> failed := failed st + length batch, client := snd res,
               console := console st @
                 [Failed_line (i div BATCH_SIZE + 1)
                    ((length invs + BATCH_SIZE - 1) div BATCH_SIZE) e] \<rparr>)"
    have step: "insert_loop sink invs i st = insert_loop sink invs (i + BATCH_SIZE) st'"
      by (subst insert_loop.simps) (simp only: True if_True Let_def batch_def res_def st'_def)
    have ch: "chunks BATCH_SIZE (drop i invs)
        = batch # chunks BATCH_SIZE (drop (i + BATCH_SIZE) invs)"
      unfolding batch_def using True by (rule chunks_drop)
    have cl: "client st' = snd res" by (cases "fst res") (simp_all add: st'_def)
    have dv: "(i + BATCH_SIZE) div BATCH_SIZE = i div BATCH_SIZE + 1"
      by (simp add: BATCH_SIZE_def)
    note IH = "1.IH"[OF True refl refl refl refl, folded batch_def, folded res_def,
        folded st'_def]
    note f0 = IH[THEN conjunct1]
    note i0 = IH[THEN conjunct2, THEN conjunct1]
    note c0 = IH[THEN conjunct2, THEN conjunct2, THEN conjunct1]
    note e0 = IH[THEN conjunct2, THEN conjunct2, THEN conjunct2, THEN conjunct1]
    note b0 = IH[THEN conjunct2, THEN conjunct2, THEN conjunct2, THEN conjunct2]
    have at: "attempts sink (client st) (batch # chunks BATCH_SIZE (drop (i + BATCH_SIZE) invs))
        = (batch, fst res)
          # attempts sink (client st') (chunks BATCH_SIZE (drop (i + BATCH_SIZE) invs))"
      by (simp add: cl res_def)
    have ca: "client_after sink (client st) (batch # chunks BATCH_SIZE (drop (i + BATCH_SIZE) invs))
        = client_after sink (client st') (chunks BATCH_SIZE (drop (i + BATCH_SIZE) invs))"
      by (simp add: cl res_def)
    have fs: "failed st' = failed st + (if isl (fst res) then length batch else 0)"
      and im: "imported st' = imported st + (if isl (fst res) then 0 else length batch)"
      and ef: "map event_failed (console st') = map event_failed (console st) @ [isl (fst res)]"
      and eb: "map event_batch (console st') = map event_batch (console st) @ [i div BATCH_SIZE + 1]"
      by (cases "fst res"; simp add: st'_def)+
    have up: "[i div BATCH_SIZE + 1 ..<
          i div BATCH_SIZE + 1 + length (batch # chunks BATCH_SIZE (drop (i + BATCH_SIZE) invs))]
        = (i div BATCH_SIZE + 1)
          # [(i + BATCH_SIZE) div BATCH_SIZE + 1 ..< (i + BATCH_SIZE) div BATCH_SIZE + 1
               + length (chunks BATCH_SIZE (drop (i + BATCH_SIZE) invs))]"
      using upt_step[of "i div BATCH_SIZE + 1"] by (simp del: upt_Suc add: dv)
    have g1: "failed (insert_loop sink invs i st)
        = failed st + failed_total (attempts sink (client st) (chunks BATCH_SIZE (drop i invs)))"
      unfolding step ch at f0 fs by (simp add: failed_total_def)
    have g2: "imported (insert_loop sink invs i st)
        = imported st + imported_total (attempts sink (client st) (chunks BATCH_SIZE (drop i invs)))"
      unfolding step ch at i0 im by (simp add: imported_total_def)
    have g3: "client (insert_loop sink invs i st)
        = client_after sink (client st) (chunks BATCH_SIZE (drop i invs))"
      unfolding step ch ca c0 by (rule refl)
    have g4: "map event_failed (console (insert_loop sink invs i st))
        = map event_failed (console st)
          @ map (\<lambda>a. isl (snd a)) (attempts sink (client st) (chunks BATCH_SIZE (drop i invs)))"
      unfolding step ch at e0 ef by simp
    have g5: "map event_batch (console (insert_loop sink invs i st))
        = map event_batch (console st)
          @ [i div BATCH_SIZE + 1 ..<
               i div BATCH_SIZE + 1 + length (chunks BATCH_SIZE (drop i invs))]"
      unfolding step ch b0 eb up by simp
    from g1 g2 g3 g4 g5 show ?thesis by blast
  qed
qed

section \<open>Facts about the transformer\<close>

text \<open>What a successful call of the transformer has computed.\<close>

lemma transform_record_Inr:
  assumes "transform_record render r = Inr iv"
  obtains t c d where "calc_triage_score r = Inr t" "calc_confound_score r = Inr c"
    "(if truthy (get r ''date_time'') then slice10 (get_default r ''date_time'' (JStr []))
      else Inr (JStr ''Unknown'')) = Inr d"
    "triage_score iv = t" "triage_status iv = status_of t c"
    "raw_data iv = build_raw_data r t c"
    "title iv = take 200
       ((if clean_text render (get r ''shape'') 20 \<noteq> []
         then clean_text render (get r ''shape'') 20 @ '' '' else [])
        @ ''UFO - '' @ clean_text render (get_default r ''city'' (JStr ''Unknown'')) 50
        @ '', '' @ clean_text render (get r ''state'') 20 @ '' ('' @ py_str render d @ '')'')"
    "user_id iv = SYSTEM_USER_ID" "investigation_type iv = ''ufo''"
    "description iv = (if clean_text render (get r ''description'') 500 \<noteq> []
                       then clean_text render (get r ''description'') 500
                       else ''UFO sighting report'')"
    "triage_notes iv = ''Batch import. Quality: '' @ render (json_of_num t)
                 @ ''/10, Confound: '' @ render (JInt c) @ ''%''"
proof -
  from assms obtain t where t: "calc_triage_score r = Inr t"
    unfolding transform_record_def by (blast dest: bindE_Inr)
  from assms obtain c where c: "calc_confound_score r = Inr c"
    unfolding transform_record_def t by (auto simp: bindE_def split: sum.splits)
  from assms obtain d where d: "(if truthy (get r ''date_time'')
      then slice10 (get_default r ''date_time'' (JStr []))
      else Inr (JStr ''Unknown'')) = Inr d"
    unfolding transform_record_def t c by (auto simp: bindE_def Let_def split: sum.splits)
  from assms have "iv = \<lparr> user_id = SYSTEM_USER_ID, investigation_type = ''ufo'',
      title = take 200
       ((if clean_text render (get r ''shape'') 20 \<noteq> []
         then clean_text render (get r ''shape'') 20 @ '' '' else [])
        @ ''UFO - '' @ clean_text render (get_default r ''city'' (JStr ''Unknown'')) 50
        @ '', '' @ clean_text render (get r ''state'') 20 @ '' ('' @ py_str render d @ '')''),
      description = (if clean_text render (get r ''description'') 500 \<noteq> []
                     then clean_text render (get r ''description'') 500
                     else ''UFO sighting report''),
      raw_data = build_raw_data r t c, triage_score = t, triage_status = status_of t c,
      triage_notes = ''Batch import. Quality: '' @ render (json_of_num t)
                 @ ''/10, Confound: '' @ render (JInt c) @ ''%'' \<rparr>"
    unfolding transform_record_def t c d by (simp add: bindE_def Let_def get_default_clean)
  then show ?thesis using that[OF t c d] by simp
qed


text \<open>The date part of the title, from the stored \<open>date_time\<close>.\<close>

lemma date_part:
  assumes "(if truthy (get r ''date_time'') then slice10 (get_default r ''date_time'' (JStr []))
      else Inr (JStr ''Unknown'')) = Inr d"
  shows "py_str render d =
     (case get r ''date_time'' of
        JStr s \<Rightarrow> if s = [] then ''Unknown'' else take 10 s
      | JArr xs \<Rightarrow> if xs = [] then ''Unknown'' else render (JArr (take 10 xs))
      | _ \<Rightarrow> ''Unknown'')"
  using assms
  by (cases "get r ''date_time''")
     (auto simp: slice10_def get_default_def get_def py_str_def split: option.splits if_splits)

lemma city_part:
  "clean_text render (get_default r ''city'' (JStr ''Unknown'')) 50
     = (if map_of r ''city'' = None then ''Unknown'' else clean_text render (get r ''city'') 50)"
  by (auto simp: get_def eval_text split: option.splits)


section \<open>Claims\<close>

text \<open>
  C1. The triage status is a function of the two scores: \<open>verified\<close> exactly when the
  triage score is at least 7 and the confound score below 30; otherwise \<open>provisional\<close>
  exactly when the triage score is at least 4 or the confound score below 50; otherwise
  \<open>pending\<close>. The pairs (7, 29), (7, 30), (3, 60) and (0, 10) give \<open>verified\<close>,
  \<open>provisional\<close>, \<open>pending\<close> and \<open>provisional\<close>. The status stored by the transformer
  is this function of the two scores computed for the record; a triage score that is a
  \<^verbatim>\<open>float\<close> is compared by its value.
\<close>

theorem triage_status_rule:
  "(status_of t c = ''verified'' \<longleftrightarrow> num_le (PInt 7) t \<and> c < 30)
   \<and> (status_of t c = ''provisional'' \<longleftrightarrow>
        \<not> (num_le (PInt 7) t \<and> c < 30) \<and> (num_le (PInt 4) t \<or> c < 50))
   \<and> (status_of t c = ''pending'' \<longleftrightarrow>
        \<not> (num_le (PInt 7) t \<and> c < 30) \<and> \<not> (num_le (PInt 4) t \<or> c < 50))
   \<and> status_of (PInt 7) 29 = ''verified''
   \<and> status_of (PInt 7) 30 = ''provisional''
   \<and> status_of (PInt 3) 60 = ''pending''
   \<and> status_of (PInt 0) 10 = ''provisional''
   \<and> (transform_record render r = Inr iv \<longrightarrow>
        (\<exists>t' c'. calc_triage_score r = Inr t' \<and> calc_confound_score r = Inr c'
           \<and> triage_score iv = t' \<and> triage_status iv = status_of t' c'))"
proof -
  have a: "status_of t c = ''verified'' \<longleftrightarrow> num_le (PInt 7) t \<and> c < 30"
    by (simp add: status_of_def)
  have b: "status_of t c = ''provisional'' \<longleftrightarrow>
        \<not> (num_le (PInt 7) t \<and> c < 30) \<and> (num_le (PInt 4) t \<or> c < 50)"
    by (simp add: status_of_def)
  have c: "status_of t c = ''pending'' \<longleftrightarrow>
        \<not> (num_le (PInt 7) t \<and> c < 30) \<and> \<not> (num_le (PInt 4) t \<or> c < 50)"
    by (simp add: status_of_def)
  have d: "status_of (PInt 7) 29 = ''verified''" "status_of (PInt 7) 30 = ''provisional''"
    "status_of (PInt 3) 60 = ''pending''" "status_of (PInt 0) 10 = ''provisional''"
    by (simp_all add: status_of_def num_le_def fl_le_def)
  have e: "\<exists>t' c'. calc_triage_score r = Inr t' \<and> calc_confound_score r = Inr c'
           \<and> triage_score iv = t' \<and> triage_status iv = status_of t' c'"
    if "transform_record render r = Inr iv"
    using that by (rule transform_record_Inr) blast
  from a b c d e show ?thesis by blast
qed

theorem triage_status_rule_witness:
  "(\<exists>iv. transform_record (\<lambda>v. []) rich_record = Inr iv
     \<and> calc_triage_score rich_record = Inr (PInt 10)
     \<and> calc_confound_score rich_record = Inr 20
     \<and> triage_status iv = ''verified'')
   \<and> (\<exists>iv. transform_record (\<lambda>v. []) near_two_record = Inr iv
     \<and> calc_triage_score near_two_record = Inr (PFloat (Fin 7))
     \<and> calc_confound_score near_two_record = Inr 0
     \<and> triage_score iv = PFloat (Fin 7)
     \<and> triage_status iv = ''verified'')"
proof -
  have t: "calc_triage_score rich_record = Inr (PInt 10)"
    by (simp add: rich_record_def eval_scorers)
  have c: "calc_confound_score rich_record = Inr 20"
    by (simp add: rich_record_def eval_scorers)
  have d: "get rich_record ''date_time'' = JStr ''2020-05-01T00:00:00''"
    "get_default rich_record ''date_time'' (JStr []) = JStr ''2020-05-01T00:00:00''"
    by (simp_all add: rich_record_def get_def get_default_def)
  obtain iv where iv: "transform_record (\<lambda>v. []) rich_record = Inr iv"
    by (simp add: transform_record_def t c d bindE_def Let_def slice10_def)
  from triage_status_rule[of "PInt 10" 20 "\<lambda>v. []" rich_record iv] iv t c
  have "triage_status iv = ''verified''" by (auto simp: num_le_def fl_le_def)
  with iv t c have 1: "\<exists>iv. transform_record (\<lambda>v. []) rich_record = Inr iv
     \<and> calc_triage_score rich_record = Inr (PInt 10)
     \<and> calc_confound_score rich_record = Inr 20
     \<and> triage_status iv = ''verified''" by blast
  have t': "calc_triage_score near_two_record = Inr (PFloat (Fin 7))"
    by (simp add: near_two_record_def eval_scorers)
  have c': "calc_confound_score near_two_record = Inr 0"
    by (simp add: near_two_record_def eval_scorers)
  have d': "get near_two_record ''date_time'' = JNull"
    by (simp add: near_two_record_def get_def)
  obtain iv' where iv': "transform_record (\<lambda>v. []) near_two_record = Inr iv'"
    by (simp add: transform_record_def t' c' d' bindE_def Let_def)
  from triage_status_rule[of "PFloat (Fin 7)" 0 "\<lambda>v. []" near_two_record iv'] iv' t' c'
  have "triage_score iv' = PFloat (Fin 7)" "triage_status iv' = ''verified''"
    by (auto simp: num_le_def fl_le_def)
  with iv' t' c' have 2: "\<exists>iv. transform_record (\<lambda>v. []) near_two_record = Inr iv
     \<and> calc_triage_score near_two_record = Inr (PFloat (Fin 7))
     \<and> calc_confound_score near_two_record = Inr 0
     \<and> triage_score iv = PFloat (Fin 7)
     \<and> triage_status iv = ''verified''" by blast
  from 1 2 show ?thesis ..
qed

text \<open>
  C2, as stated: every scorer returns on every raw record, with integer results. It fails
  on a record whose witness count or distance is a string (the comparison raises), and a
  float witness count between 1 and 3 gives a float score.
\<close>

theorem scorers_never_raise_counterexample:
  "quality_score [(''witness_count'', JStr ''3'')] = Inl TypeError
   \<and> calc_triage_score [(''witness_count'', JStr ''3'')] = Inl TypeError
   \<and> calc_confound_score [(''airport_nearby_km'', JStr ''5'')] = Inl TypeError
   \<and> calc_triage_score [(''witness_count'', JFloat (Fin (5 / 2)))] = Inr (PFloat (Fin (3 / 2)))"
  by (simp add: eval_scorers)

text \<open>
  C2, amended. For every raw record whose witness count and duration are each absent,
  falsy or a number, and whose airport and military base distances are each absent, null
  or a number, the three scorers return; the confound score is an integer between 0 and
  100, the triage score a number between 0 and 10, the quality score a number that is at
  least 0; triage and quality score are integers when the witness count is not a float.
  With a float witness count the sums are rounded sums of doubles, and the bounds hold for
  the rounded values.
\<close>

theorem scorers_return_in_bounds:
  assumes "truthy (get r ''witness_count'') \<longrightarrow> numeric (get r ''witness_count'')"
    and "truthy (get r ''duration_seconds'') \<longrightarrow> numeric (get r ''duration_seconds'')"
    and "get r ''airport_nearby_km'' = JNull \<or> numeric (get r ''airport_nearby_km'')"
    and "get r ''military_base_nearby_km'' = JNull \<or> numeric (get r ''military_base_nearby_km'')"
  shows "\<exists>q t c. quality_score r = Inr q \<and> calc_triage_score r = Inr t
     \<and> calc_confound_score r = Inr c
     \<and> num_le (PInt 0) q
     \<and> num_le (PInt 0) t \<and> num_le t (PInt 10)
     \<and> 0 \<le> c \<and> c \<le> 100
     \<and> (\<not> is_float (get r ''witness_count'') \<longrightarrow> is_int q \<and> is_int t)"
proof -
  from quality_score_ok[OF assms(1,2)] obtain q where
    q: "quality_score r = Inr q" "is_fin q" "0 \<le> num_val q"
       "\<not> is_float (get r ''witness_count'') \<longrightarrow> is_int q"
    by blast
  define b where "b = (if truthy (get r ''latitude'') \<and> truthy (get r ''longitude'')
                       then PInt 3 else PInt 0)"
  have b: "b = PInt 3 \<or> b = PInt 0" by (simp add: b_def)
  have t: "calc_triage_score r = Inr (spec_triage b r)"
    unfolding b_def by (rule triage_closed_form[OF assms(1,2)])
  note tp = spec_triage_props[OF b, of r]
  have c: "calc_confound_score r = Inr (spec_confound r)"
    by (rule confound_closed_form[OF assms(3,4)])
  have "num_le (PInt 0) q" using q(2,3) by (simp add: num_le_fin)
  moreover have "num_le (PInt 0) (spec_triage b r)" "num_le (spec_triage b r) (PInt 10)"
    using score_in_fin[OF tp(1)] score_in_val[OF tp(1)] by (simp_all add: num_le_fin)
  ultimately show ?thesis
    using q(1,4) t c tp(2) spec_confound_bounds[of r] by auto
qed

theorem scorers_return_in_bounds_witness:
  "quality_score rich_record = Inr (PInt 11)
   \<and> calc_triage_score rich_record = Inr (PInt 10)
   \<and> calc_confound_score rich_record = Inr 20
   \<and> quality_score four_float_record = Inr (PFloat (Fin 4))
   \<and> calc_triage_score near_two_record = Inr (PFloat (Fin 7))
   \<and> (\<exists>q t c. quality_score [] = Inr q \<and> calc_triage_score [] = Inr t
        \<and> calc_confound_score [] = Inr c \<and> is_int q \<and> is_int t \<and> 0 \<le> c \<and> c \<le> 100)"
proof -
  have "\<exists>q t c. quality_score [] = Inr q \<and> calc_triage_score [] = Inr t
        \<and> calc_confound_score [] = Inr c \<and> is_int q \<and> is_int t \<and> 0 \<le> c \<and> c \<le> 100"
    using scorers_return_in_bounds[of "[]"] by (auto simp: get_def numeric_def is_float_def)
  moreover have "\<exists>q t c. quality_score rich_record = Inr q \<and> calc_triage_score rich_record = Inr t
        \<and> calc_confound_score rich_record = Inr c"
    using scorers_return_in_bounds[of rich_record]
    by (simp add: get_def numeric_def rich_record_def) blast
  moreover have "quality_score rich_record = Inr (PInt 11)"
    "calc_triage_score rich_record = Inr (PInt 10)"
    "calc_confound_score rich_record = Inr 20"
    by (simp_all add: rich_record_def eval_scorers)
  moreover have "quality_score four_float_record = Inr (PFloat (Fin 4))"
    "calc_triage_score near_two_record = Inr (PFloat (Fin 7))"
    by (simp_all add: four_float_record_def near_two_record_def eval_scorers)
  ultimately show ?thesis by blast
qed

text \<open>
  C3, as stated: a record with both coordinates present gets the 3 points also when a
  coordinate is 0. The code tests the truth value of the coordinates, so a latitude of 0
  counts as missing: the record on the equator scores 2 (witnesses 1, source 1), not 5.
\<close>

theorem triage_coordinates_counterexample:
  "map_of equator_record ''latitude'' = Some (JInt 0)
   \<and> map_of equator_record ''longitude'' = Some (JFloat (Fin (- 157 / 2)))
   \<and> calc_triage_score equator_record = Inr (PInt 2)
   \<and> spec_triage (PInt 3) equator_record = PInt 5"
  by (simp add: equator_record_def eval_scorers spec_triage_def spec_witness_term_def
      spec_duration_term_def spec_effects_term_def spec_em_term_def spec_source_term_def)

text \<open>
  C3, amended. For every raw record in which latitude and longitude are both truthy
  (stored, and neither null, zero nor empty), the triage score is 3 plus the remaining
  terms, clamped to 10; when one of them is falsy, as the value 0 is, the score is the
  remaining terms alone. The terms are added in the order of the rule with Python's \<^verbatim>\<open>+\<close>,
  which rounds a sum with a float witness term to the nearest double. The scorer returns
  when witness count and duration are absent, falsy or numbers.
\<close>

theorem triage_coordinates_term:
  "(calc_triage_score r = Inr v \<longrightarrow>
      (truthy (get r ''latitude'') \<and> truthy (get r ''longitude'') \<longrightarrow>
         v = spec_triage (PInt 3) r)
      \<and> (\<not> (truthy (get r ''latitude'') \<and> truthy (get r ''longitude'')) \<longrightarrow>
         v = spec_triage (PInt 0) r))
   \<and> ((truthy (get r ''witness_count'') \<longrightarrow> numeric (get r ''witness_count''))
        \<and> (truthy (get r ''duration_seconds'') \<longrightarrow> numeric (get r ''duration_seconds''))
      \<longrightarrow> (\<exists>v'. calc_triage_score r = Inr v'))"
proof -
  have a: "(truthy (get r ''latitude'') \<and> truthy (get r ''longitude'') \<longrightarrow>
         v = spec_triage (PInt 3) r)
      \<and> (\<not> (truthy (get r ''latitude'') \<and> truthy (get r ''longitude'')) \<longrightarrow>
         v = spec_triage (PInt 0) r)"
    if "calc_triage_score r = Inr v"
    using triage_closed_form[OF triage_Inr_typed[OF that]] that by auto
  have b: "\<exists>v'. calc_triage_score r = Inr v'"
    if "truthy (get r ''witness_count'') \<longrightarrow> numeric (get r ''witness_count'')"
      "truthy (get r ''duration_seconds'') \<longrightarrow> numeric (get r ''duration_seconds'')"
    using triage_closed_form[OF that] by simp
  from a b show ?thesis by blast
qed

theorem triage_coordinates_term_witness:
  "calc_triage_score rich_record = Inr (PInt 10)
   \<and> spec_triage (PInt 3) rich_record = PInt 10
   \<and> calc_triage_score equator_record = Inr (PInt 2)
   \<and> spec_triage (PInt 0) equator_record = PInt 2
   \<and> calc_triage_score near_two_record = Inr (PFloat (Fin 7))
   \<and> spec_triage (PInt 3) near_two_record = PFloat (Fin 7)
   \<and> calc_triage_score above_two_record = Inr (PFloat (Fin 4))
   \<and> spec_triage (PInt 3) above_two_record = PFloat (Fin 4)"
proof -
  have t: "calc_triage_score rich_record = Inr (PInt 10)"
    "calc_triage_score equator_record = Inr (PInt 2)"
    "calc_triage_score near_two_record = Inr (PFloat (Fin 7))"
    "calc_triage_score above_two_record = Inr (PFloat (Fin 4))"
    by (simp_all add: rich_record_def equator_record_def near_two_record_def
        above_two_record_def eval_scorers)
  have "PInt 10 = spec_triage (PInt 3) rich_record"
    using triage_coordinates_term[of rich_record "PInt 10"] t(1)
    by (simp add: rich_record_def get_def)
  moreover have "PInt 2 = spec_triage (PInt 0) equator_record"
    using triage_coordinates_term[of equator_record "PInt 2"] t(2)
    by (simp add: equator_record_def get_def)
  moreover have "PFloat (Fin 7) = spec_triage (PInt 3) near_two_record"
    using triage_coordinates_term[of near_two_record "PFloat (Fin 7)"] t(3)
    by (simp add: near_two_record_def get_def)
  moreover have "PFloat (Fin 4) = spec_triage (PInt 3) above_two_record"
    using triage_coordinates_term[of above_two_record "PFloat (Fin 4)"] t(4)
    by (simp add: above_two_record_def get_def)
  ultimately show ?thesis using t by simp
qed

text \<open>
  C4. For every raw record, the confound score is the clamp to 0..100 of the airport
  term plus the military base term minus 20 for physiological effects minus 15 for EM
  interference. The scorer returns this value when each distance is absent, null or a
  number, the values on which the comparisons of the rule are defined.
\<close>

theorem confound_score_rule:
  "(calc_confound_score r = Inr c \<longrightarrow> c = spec_confound r)
   \<and> 0 \<le> spec_confound r \<and> spec_confound r \<le> 100
   \<and> ((get r ''airport_nearby_km'' = JNull \<or> numeric (get r ''airport_nearby_km''))
        \<and> (get r ''military_base_nearby_km'' = JNull
             \<or> numeric (get r ''military_base_nearby_km''))
      \<longrightarrow> calc_confound_score r = Inr (spec_confound r))"
proof -
  have a: "c = spec_confound r" if "calc_confound_score r = Inr c"
    using confound_closed_form[OF confound_Inr_typed[OF that]] that by simp
  from a confound_closed_form[of r] spec_confound_bounds[of r] show ?thesis by blast
qed

theorem confound_score_rule_witness:
  "calc_confound_score rich_record = Inr 20
   \<and> spec_confound rich_record = 20
   \<and> calc_confound_score [(''physiological_effects'', JBool True)] = Inr 0
   \<and> spec_confound [(''physiological_effects'', JBool True)] = 0
   \<and> calc_confound_score [(''airport_nearby_km'', JInt 0), (''military_base_nearby_km'', JInt 0)]
       = Inr 70"
proof -
  have c: "calc_confound_score rich_record = Inr 20"
    "calc_confound_score [(''physiological_effects'', JBool True)] = Inr 0"
    "calc_confound_score [(''airport_nearby_km'', JInt 0), (''military_base_nearby_km'', JInt 0)]
       = Inr 70"
    by (simp_all add: rich_record_def eval_scorers)
  have "20 = spec_confound rich_record"
    using confound_score_rule[of rich_record 20] c(1) by simp
  moreover have "0 = spec_confound [(''physiological_effects'', JBool True)]"
    using confound_score_rule[of "[(''physiological_effects'', JBool True)]" 0] c(2) by simp
  ultimately show ?thesis using c by simp
qed




text \<open>
  C6, as stated: the result is trimmed at both ends and an input with a null byte that is
  longer than the maximum is cut to exactly the maximum. Removing null bytes and trimming
  can leave fewer characters than the maximum; the cut comes after the trimming, so it
  can end on a space; and a negative maximum drops characters from the end instead of
  bounding the length.
\<close>

theorem clean_text_counterexample:
  "clean_text (\<lambda>v. []) (JStr [CHR ''a'', CHR ''b'', CHR 0x00, CHR 0x00]) 3 = ''ab''
   \<and> 3 < length [CHR ''a'', CHR ''b'', CHR 0x00, CHR 0x00]
   \<and> length ''ab'' \<noteq> 3
   \<and> clean_text (\<lambda>v. []) (JStr ''ab cd'') 3 = ''ab ''
   \<and> is_space (last ''ab '')
   \<and> clean_text (\<lambda>v. []) (JStr ''abc'') (- 1) = ''ab''
   \<and> \<not> int (length ''ab'') \<le> - 1"
  by (simp add: eval_text)

text \<open>
  C6, amended. For every input value and every maximum length that is not negative, the
  sanitizer returns (it has no failing branch) the first \<open>max_len\<close> characters of the
  text with null bytes removed and then trimmed, and the empty string for a falsy input.
  The result has no null byte, does not start with whitespace and has at most \<open>max_len\<close>
  characters; it has exactly \<open>max_len\<close> characters when at least that many remain after
  removing null bytes and trimming, and it does not end with whitespace when at most
  that many remain.
\<close>

theorem clean_text_sanitizes:
  assumes "0 \<le> n"
  shows "CHR 0x00 \<notin> set (clean_text render v n)
     \<and> length (clean_text render v n) \<le> nat n
     \<and> (clean_text render v n \<noteq> [] \<longrightarrow> \<not> is_space (hd (clean_text render v n)))
     \<and> (\<not> truthy v \<longrightarrow> clean_text render v n = [])
     \<and> (truthy v \<longrightarrow>
          clean_text render v n = take (nat n) (strip (replace_nul (py_str render v))))
     \<and> (truthy v \<and> nat n \<le> length (strip (replace_nul (py_str render v))) \<longrightarrow>
          length (clean_text render v n) = nat n)
     \<and> (length (strip (replace_nul (py_str render v))) \<le> nat n
          \<and> clean_text render v n \<noteq> [] \<longrightarrow> \<not> is_space (last (clean_text render v n)))"
proof -
  let ?s = "strip (replace_nul (py_str render v))"
  have a: "CHR 0x00 \<notin> set (clean_text render v n)" by (rule clean_text_no_nul)
  have b: "length (clean_text render v n) \<le> nat n" using assms by (rule clean_text_length)
  have c: "\<not> is_space (hd (clean_text render v n))" if "clean_text render v n \<noteq> []"
    using assms that by (rule clean_text_hd)
  have d: "clean_text render v n = []" if "\<not> truthy v" using that by (rule clean_text_falsy)
  have e: "clean_text render v n = take (nat n) ?s" if "truthy v"
    using that assms by (rule clean_text_truthy)
  have f: "length (clean_text render v n) = nat n" if "truthy v" "nat n \<le> length ?s"
    using e[OF that(1)] that(2) by simp
  have g: "\<not> is_space (last (clean_text render v n))"
    if "length ?s \<le> nat n" "clean_text render v n \<noteq> []"
  proof -
    from that(2) have t: "truthy v" using d by blast
    with e that(1) have "clean_text render v n = ?s" by simp
    with that(2) strip_last[of "replace_nul (py_str render v)"] show ?thesis by simp
  qed
  from a b c d e f g show ?thesis by blast
qed

theorem clean_text_sanitizes_witness:
  "(0::int) \<le> 6
   \<and> clean_text (\<lambda>v. []) (JStr (CHR 0x00 # ''  padded text  '')) 6 = ''padded''
   \<and> length (clean_text (\<lambda>v. []) (JStr (CHR 0x00 # ''  padded text  '')) 6) = nat 6
   \<and> clean_text (\<lambda>v. []) JNull 6 = []"
proof -
  have h: "(0::int) \<le> 6" by simp
  have s: "strip (replace_nul (py_str (\<lambda>v. []) (JStr (CHR 0x00 # ''  padded text  ''))))
      = ''padded text''"
    by (simp add: eval_text)
  from clean_text_sanitizes[OF h, of "\<lambda>v. []" "JStr (CHR 0x00 # ''  padded text  '')"]
  have "clean_text (\<lambda>v. []) (JStr (CHR 0x00 # ''  padded text  '')) 6 = ''padded''"
    "length (clean_text (\<lambda>v. []) (JStr (CHR 0x00 # ''  padded text  '')) 6) = nat 6"
    by (simp_all add: s)
  moreover from clean_text_sanitizes[OF h, of "\<lambda>v. []" JNull]
  have "clean_text (\<lambda>v. []) JNull 6 = []" by simp
  ultimately show ?thesis by simp
qed

text \<open>
  C7. Every selected record has a truthy latitude, longitude and local sidereal time, the
  selected list has at most \<open>MAX_RECORDS\<close> (5000) entries and at most as many as the
  high-signal list, from which it is taken. The selection returns when the witness count
  and the duration of every record are absent, falsy or numbers.
\<close>

theorem selector_invariant:
  "(select_records records = Inr sel \<longrightarrow>
      (\<forall>r \<in> set sel. r \<in> set records \<and> truthy (get r ''latitude'')
          \<and> truthy (get r ''longitude'') \<and> truthy (get r ''local_sidereal_time''))
      \<and> length sel \<le> MAX_RECORDS \<and> MAX_RECORDS = 5000
      \<and> (\<exists>hs. filterE is_high_signal (filter is_tier1 records) = Inr hs
            \<and> length sel \<le> length hs \<and> set sel \<subseteq> set hs))
   \<and> ((\<forall>r \<in> set records.
          (truthy (get r ''witness_count'') \<longrightarrow> numeric (get r ''witness_count''))
          \<and> (truthy (get r ''duration_seconds'') \<longrightarrow> numeric (get r ''duration_seconds'')))
        \<longrightarrow> (\<exists>sel'. select_records records = Inr sel'))"
proof -
  have a: "(\<forall>r \<in> set sel. r \<in> set records \<and> truthy (get r ''latitude'')
          \<and> truthy (get r ''longitude'') \<and> truthy (get r ''local_sidereal_time''))
      \<and> length sel \<le> MAX_RECORDS \<and> MAX_RECORDS = 5000
      \<and> (\<exists>hs. filterE is_high_signal (filter is_tier1 records) = Inr hs
            \<and> length sel \<le> length hs \<and> set sel \<subseteq> set hs)"
    if "select_records records = Inr sel"
  proof -
    from that obtain hs srt where hs: "filterE is_high_signal (filter is_tier1 records) = Inr hs"
      and srt: "sort_by_quality hs = Inr srt" and sel: "sel = take MAX_RECORDS srt"
      by (rule select_records_Inr)
    from sort_by_quality_Inr[OF srt] have l: "length srt = length hs" and s: "set srt = set hs"
      by auto
    from filterE_Inr[OF hs] have t: "set hs \<subseteq> set (filter is_tier1 records)" by auto
    have sub: "set sel \<subseteq> set hs" unfolding sel using s by (auto dest: in_set_takeD)
    have "length sel \<le> MAX_RECORDS" "length sel \<le> length hs" unfolding sel using l by simp_all
    moreover have "r \<in> set records \<and> truthy (get r ''latitude'')
          \<and> truthy (get r ''longitude'') \<and> truthy (get r ''local_sidereal_time'')"
      if "r \<in> set sel" for r
      using that sub t by (auto simp: is_tier1_def)
    ultimately show ?thesis using hs sub by (auto simp: MAX_RECORDS_def)
  qed
  have b: "\<exists>sel'. select_records records = Inr sel'"
    if ty: "\<forall>r \<in> set records.
          (truthy (get r ''witness_count'') \<longrightarrow> numeric (get r ''witness_count''))
          \<and> (truthy (get r ''duration_seconds'') \<longrightarrow> numeric (get r ''duration_seconds''))"
  proof -
    have "\<exists>b. is_high_signal r = Inr b" if "r \<in> set (filter is_tier1 records)" for r
      using that ty by (intro is_high_signal_returns) auto
    with filterE_returns[of "filter is_tier1 records" is_high_signal] obtain hs
      where hs: "filterE is_high_signal (filter is_tier1 records) = Inr hs" by blast
    from filterE_Inr[OF hs] have "set hs \<subseteq> set records" by auto
    then have "\<exists>q. quality_score r = Inr q" if "r \<in> set hs" for r
      using that ty quality_score_ok[of r] by blast
    with sort_by_quality_returns[of hs] obtain srt where "sort_by_quality hs = Inr srt"
      by blast
    with hs show ?thesis by (simp add: select_records_def bindE_def)
  qed
  from a b show ?thesis by blast
qed

theorem selector_invariant_witness:
  "select_records [equator_record, two_record, quiet_record, six_record]
     = Inr [six_record, two_record]
   \<and> filterE is_high_signal (filter is_tier1 [equator_record, two_record, quiet_record, six_record])
     = Inr [two_record, six_record]
   \<and> truthy (get six_record ''latitude'') \<and> truthy (get six_record ''longitude'')
   \<and> truthy (get six_record ''local_sidereal_time'')
   \<and> truthy (get two_record ''latitude'') \<and> truthy (get two_record ''longitude'')
   \<and> truthy (get two_record ''local_sidereal_time'')
   \<and> length [six_record, two_record] \<le> MAX_RECORDS"
proof -
  have t: "filter is_tier1 [equator_record, two_record, quiet_record, six_record]
      = [two_record, quiet_record, six_record]"
    by (simp add: is_tier1_def get_def equator_record_def two_record_def quiet_record_def
        six_record_def)
  have h: "is_high_signal two_record = Inr True" "is_high_signal quiet_record = Inr False"
    "is_high_signal six_record = Inr True"
    by (simp_all add: is_high_signal_def key_gt_def get_def two_record_def quiet_record_def
        six_record_def)
  have q: "quality_score two_record = Inr (PInt 2)" "quality_score six_record = Inr (PInt 6)"
    by (simp_all add: two_record_def six_record_def eval_scorers)
  have f: "filterE is_high_signal (filter is_tier1
      [equator_record, two_record, quiet_record, six_record]) = Inr [two_record, six_record]"
    unfolding t by (simp add: h bindE_def)
  have s: "select_records [equator_record, two_record, quiet_record, six_record]
     = Inr [six_record, two_record]"
    unfolding select_records_def Let_def t
    by (simp add: h q bindE_def sort_by_quality_def MAX_RECORDS_def)
  from selector_invariant[of "[equator_record, two_record, quiet_record, six_record]"
      "[six_record, two_record]"] s f
  show ?thesis by simp
qed

text \<open>
  C8. The selected records, and with them the transformed records, are in descending
  order of quality score: no record comes after a record of strictly lower quality
  score, so a record of score 6 comes before a record of score 2. Scores are compared by
  value, an \<^verbatim>\<open>int\<close> with a \<^verbatim>\<open>float\<close> too.
\<close>

theorem output_sorted_by_quality:
  assumes "main render sink db0 records = Inr out"
  shows "select_records records = Inr (selected out)
     \<and> length (investigations out) = length (selected out)
     \<and> (\<forall>i < length (selected out).
           transform_record render (selected out ! i) = Inr (investigations out ! i))
     \<and> (\<forall>i j. i < j \<and> j < length (selected out) \<longrightarrow>
           (\<exists>qi qj. quality_score (selected out ! i) = Inr qi
              \<and> quality_score (selected out ! j) = Inr qj \<and> \<not> num_lt qi qj))
     \<and> (\<forall>i j. i < length (selected out) \<and> j < length (selected out)
           \<and> quality_score (selected out ! i) = Inr (PInt 6)
           \<and> quality_score (selected out ! j) = Inr (PInt 2) \<longrightarrow> i < j)"
proof -
  from assms obtain sel invs where sel: "select_records records = Inr sel"
    and invs: "mapE (transform_record render) sel = Inr invs"
    and out: "selected out = sel" "investigations out = invs"
    unfolding main_def by (auto dest!: bindE_Inr)
  from sel obtain hs srt where srt: "sort_by_quality hs = Inr srt"
    and take: "sel = take MAX_RECORDS srt"
    by (rule select_records_Inr)
  from sort_by_quality_Inr[OF srt] obtain ks where
    ks: "\<And>i. i < length srt \<Longrightarrow> quality_score (srt ! i) = Inr (ks ! i) \<and> is_fin (ks ! i)"
    and desc: "\<And>i j. i < j \<Longrightarrow> j < length srt \<Longrightarrow> num_val (ks ! j) \<le> num_val (ks ! i)"
    by blast
  have all2: "list_all2 (\<lambda>r iv. transform_record render r = Inr iv) sel invs"
    using invs by (rule mapE_Inr)
  have ord: "\<exists>qi qj. quality_score (sel ! i) = Inr qi \<and> quality_score (sel ! j) = Inr qj
      \<and> \<not> num_lt qi qj" if "i < j" "j < length sel" for i j
  proof -
    from that have j: "j < length srt" "j < MAX_RECORDS" and i: "i < length srt" "i < MAX_RECORDS"
      by (simp_all add: take)
    have e: "sel ! i = srt ! i" "sel ! j = srt ! j" using i j by (simp_all add: take)
    from ks[OF i(1)] ks[OF j(1)] desc[OF that(1) j(1)] show ?thesis
      unfolding e by (auto simp: num_lt_fin)
  qed
  have six: "i < j" if "i < length sel" "j < length sel"
    "quality_score (sel ! i) = Inr (PInt 6)" "quality_score (sel ! j) = Inr (PInt 2)" for i j
  proof (rule ccontr)
    assume "\<not> i < j"
    with that(3,4) have "j < i" by (cases "i = j") auto
    from ord[OF this that(1)] that(3,4) show False by (simp add: num_lt_def)
  qed
  have len: "length invs = length sel"
    using all2 by (simp add: list_all2_lengthD)
  have tr: "\<forall>i < length sel. transform_record render (sel ! i) = Inr (invs ! i)"
    using list_all2_nthD[OF all2] by blast
  from sel len tr ord six show ?thesis
    unfolding out by blast
qed

theorem output_sorted_by_quality_witness:
  "(\<exists>out. main (\<lambda>v. []) flaky_sink 0 [two_record, six_record] = Inr out
     \<and> selected out = [six_record, two_record]
     \<and> quality_score six_record = Inr (PInt 6) \<and> quality_score two_record = Inr (PInt 2)
     \<and> length (investigations out) = 2
     \<and> transform_record (\<lambda>v. []) six_record = Inr (investigations out ! 0))
   \<and> quality_score four_record = Inr (PInt 4)
   \<and> quality_score four_float_record = Inr (PFloat (Fin 4))
   \<and> select_records [four_record, four_float_record] = Inr [four_record, four_float_record]
   \<and> select_records [four_float_record, four_record] = Inr [four_float_record, four_record]
   \<and> select_records [two_record, four_record, six_record, four_float_record]
       = Inr [six_record, four_record, four_float_record, two_record]"
proof -
  have t4: "filter is_tier1 [four_record, four_float_record] = [four_record, four_float_record]"
    "filter is_tier1 [four_float_record, four_record] = [four_float_record, four_record]"
    "filter is_tier1 [two_record, four_record, six_record, four_float_record]
       = [two_record, four_record, six_record, four_float_record]"
    by (simp_all add: is_tier1_def get_def two_record_def six_record_def four_record_def
        four_float_record_def)
  have h4: "is_high_signal four_record = Inr True" "is_high_signal four_float_record = Inr True"
    by (simp_all add: is_high_signal_def key_gt_def get_def four_record_def four_float_record_def)
  have q4: "quality_score four_record = Inr (PInt 4)"
    "quality_score four_float_record = Inr (PFloat (Fin 4))"
    by (simp_all add: four_record_def four_float_record_def eval_scorers)
  have h2: "is_high_signal two_record = Inr True" "is_high_signal six_record = Inr True"
    by (simp_all add: is_high_signal_def key_gt_def get_def two_record_def six_record_def)
  have q2: "quality_score two_record = Inr (PInt 2)" "quality_score six_record = Inr (PInt 6)"
    by (simp_all add: two_record_def six_record_def eval_scorers)
  have ties: "select_records [four_record, four_float_record]
       = Inr [four_record, four_float_record]"
    "select_records [four_float_record, four_record] = Inr [four_float_record, four_record]"
    "select_records [two_record, four_record, six_record, four_float_record]
       = Inr [six_record, four_record, four_float_record, two_record]"
    unfolding select_records_def Let_def t4
    by (simp_all add: h4 q4 h2 q2 bindE_def sort_by_quality_def MAX_RECORDS_def)
  have t: "filter is_tier1 [two_record, six_record] = [two_record, six_record]"
    by (simp add: is_tier1_def get_def two_record_def six_record_def)
  have h: "is_high_signal two_record = Inr True" "is_high_signal six_record = Inr True"
    by (simp_all add: is_high_signal_def key_gt_def get_def two_record_def six_record_def)
  have q: "quality_score two_record = Inr (PInt 2)" "quality_score six_record = Inr (PInt 6)"
    by (simp_all add: two_record_def six_record_def eval_scorers)
  have s: "select_records [two_record, six_record] = Inr [six_record, two_record]"
    unfolding select_records_def Let_def t
    by (simp add: h q bindE_def sort_by_quality_def MAX_RECORDS_def)
  have c: "calc_triage_score two_record = Inr (PInt 3)" "calc_confound_score two_record = Inr 0"
    "calc_triage_score six_record = Inr (PInt 6)" "calc_confound_score six_record = Inr 0"
    by (simp_all add: two_record_def six_record_def eval_scorers)
  have d: "get two_record ''date_time'' = JNull" "get six_record ''date_time'' = JNull"
    by (simp_all add: two_record_def six_record_def get_def)
  obtain a b where tr: "transform_record (\<lambda>v. []) six_record = Inr a"
    "transform_record (\<lambda>v. []) two_record = Inr b"
    by (simp add: transform_record_def c d bindE_def Let_def)
  then obtain out where out: "main (\<lambda>v. []) flaky_sink 0 [two_record, six_record] = Inr out"
    by (simp add: main_def s bindE_def)
  note sorted_out = output_sorted_by_quality[OF out]
  from sorted_out s have so: "selected out = [six_record, two_record]" by simp
  from sorted_out have "length (investigations out) = length (selected out)"
    "0 < length (selected out) \<longrightarrow>
       transform_record (\<lambda>v. []) (selected out ! 0) = Inr (investigations out ! 0)"
    by blast+
  then have "length (investigations out) = 2"
    "transform_record (\<lambda>v. []) six_record = Inr (investigations out ! 0)"
    by (simp_all add: so)
  with out so q have "\<exists>out. main (\<lambda>v. []) flaky_sink 0 [two_record, six_record] = Inr out
     \<and> selected out = [six_record, two_record]
     \<and> quality_score six_record = Inr (PInt 6) \<and> quality_score two_record = Inr (PInt 2)
     \<and> length (investigations out) = 2
     \<and> transform_record (\<lambda>v. []) six_record = Inr (investigations out ! 0)" by blast
  with q4 ties show ?thesis by simp
qed

text \<open>
  C9. The records are cut into batches of at most \<open>BATCH_SIZE\<close> records. The loop passes
  every batch to the client exactly once and in order, whatever the earlier calls did: the client ends in the state reached by calling it with each batch
  in turn, and the console has one line per batch, numbered from 1. The failure total is
  the sum of the full sizes of the batches whose call raised, the import total the sum
  of the sizes of the others, and together they account for every record.
\<close>

theorem failed_batch_is_counted_and_skipped:
  "map fst (attempts sink db0 (chunks BATCH_SIZE invs)) = chunks BATCH_SIZE invs
   \<and> concat (chunks BATCH_SIZE invs) = invs
   \<and> (\<forall>b \<in> set (chunks BATCH_SIZE invs). 0 < length b \<and> length b \<le> BATCH_SIZE)
   \<and> failed (insert_loop sink invs 0 \<lparr> imported = 0, failed = 0, client = db0, console = [] \<rparr>)
       = failed_total (attempts sink db0 (chunks BATCH_SIZE invs))
   \<and> imported (insert_loop sink invs 0 \<lparr> imported = 0, failed = 0, client = db0, console = [] \<rparr>)
       = imported_total (attempts sink db0 (chunks BATCH_SIZE invs))
   \<and> imported (insert_loop sink invs 0 \<lparr> imported = 0, failed = 0, client = db0, console = [] \<rparr>)
     + failed (insert_loop sink invs 0 \<lparr> imported = 0, failed = 0, client = db0, console = [] \<rparr>)
       = length invs
   \<and> client (insert_loop sink invs 0 \<lparr> imported = 0, failed = 0, client = db0, console = [] \<rparr>)
       = client_after sink db0 (chunks BATCH_SIZE invs)
   \<and> map event_failed
         (console (insert_loop sink invs 0
            \<lparr> imported = 0, failed = 0, client = db0, console = [] \<rparr>))
       = map (\<lambda>a. isl (snd a)) (attempts sink db0 (chunks BATCH_SIZE invs))
   \<and> map event_batch
         (console (insert_loop sink invs 0
            \<lparr> imported = 0, failed = 0, client = db0, console = [] \<rparr>))
       = [1 ..< Suc (length (chunks BATCH_SIZE invs))]"
proof -
  let ?st = "\<lparr> imported = 0, failed = 0, client = db0, console = [] \<rparr>"
  note run = insert_loop_run[of sink invs 0 ?st]
  have a: "map fst (attempts sink db0 (chunks BATCH_SIZE invs)) = chunks BATCH_SIZE invs"
    by (rule attempts_fst)
  have b: "concat (chunks BATCH_SIZE invs) = invs"
    by (rule concat_chunks) (simp add: BATCH_SIZE_def)
  have b': "\<forall>b \<in> set (chunks BATCH_SIZE invs). 0 < length b \<and> length b \<le> BATCH_SIZE"
    using chunks_sizes[of BATCH_SIZE _ invs] by (simp add: BATCH_SIZE_def)
  have c: "failed (insert_loop sink invs 0 ?st)
      = failed_total (attempts sink db0 (chunks BATCH_SIZE invs))"
    using run[THEN conjunct1] by simp
  have d: "imported (insert_loop sink invs 0 ?st)
      = imported_total (attempts sink db0 (chunks BATCH_SIZE invs))"
    using run[THEN conjunct2, THEN conjunct1] by simp
  have e: "imported (insert_loop sink invs 0 ?st) + failed (insert_loop sink invs 0 ?st)
      = length invs"
    unfolding c d by (rule totals_all) (simp add: BATCH_SIZE_def)
  have f: "client (insert_loop sink invs 0 ?st)
      = client_after sink db0 (chunks BATCH_SIZE invs)"
    using run[THEN conjunct2, THEN conjunct2, THEN conjunct1] by simp
  have g: "map event_failed (console (insert_loop sink invs 0 ?st))
      = map (\<lambda>a. isl (snd a)) (attempts sink db0 (chunks BATCH_SIZE invs))"
    using run[THEN conjunct2, THEN conjunct2, THEN conjunct2, THEN conjunct1] by simp
  have h: "map event_batch (console (insert_loop sink invs 0 ?st))
      = [1 ..< Suc (length (chunks BATCH_SIZE invs))]"
    using run[THEN conjunct2, THEN conjunct2, THEN conjunct2, THEN conjunct2]
    by (simp del: upt_Suc)
  from a b b' c d e f g h show ?thesis by blast
qed

theorem failed_batch_is_counted_and_skipped_witness:
  "chunks BATCH_SIZE (replicate 501 sample_investigation)
     = [replicate 500 sample_investigation, [sample_investigation]]
   \<and> attempts flaky_sink 0 (chunks BATCH_SIZE (replicate 501 sample_investigation))
     = [(replicate 500 sample_investigation, Inl ''timeout''), ([sample_investigation], Inr ())]
   \<and> failed (insert_loop flaky_sink (replicate 501 sample_investigation) 0
        \<lparr> imported = 0, failed = 0, client = 0, console = [] \<rparr>) = 500
   \<and> imported (insert_loop flaky_sink (replicate 501 sample_investigation) 0
        \<lparr> imported = 0, failed = 0, client = 0, console = [] \<rparr>) = 1
   \<and> client (insert_loop flaky_sink (replicate 501 sample_investigation) 0
        \<lparr> imported = 0, failed = 0, client = 0, console = [] \<rparr>) = 2
   \<and> map event_failed (console (insert_loop flaky_sink (replicate 501 sample_investigation) 0
        \<lparr> imported = 0, failed = 0, client = 0, console = [] \<rparr>)) = [True, False]
   \<and> map event_batch (console (insert_loop flaky_sink (replicate 501 sample_investigation) 0
        \<lparr> imported = 0, failed = 0, client = 0, console = [] \<rparr>)) = [1, 2]"
proof -
  let ?s = sample_investigation
  have c2: "chunks BATCH_SIZE [?s] = [[?s]]"
    by (subst chunks.simps) (simp add: BATCH_SIZE_def)
  have c1: "chunks BATCH_SIZE (replicate 501 ?s) = [replicate 500 ?s, [?s]]"
    by (subst chunks.simps) (simp add: BATCH_SIZE_def c2[unfolded BATCH_SIZE_def])
  have at: "attempts flaky_sink 0 (chunks BATCH_SIZE (replicate 501 ?s))
     = [(replicate 500 ?s, Inl ''timeout''), ([?s], Inr ())]"
    unfolding c1 by (simp add: flaky_sink_def)
  have ca: "client_after flaky_sink 0 (chunks BATCH_SIZE (replicate 501 ?s)) = 2"
    unfolding c1 by (simp add: flaky_sink_def)
  from failed_batch_is_counted_and_skipped[of flaky_sink 0 "replicate 501 ?s"] c1 at ca
  show ?thesis
    by (simp add: failed_total_def imported_total_def)
qed

text \<open>
  C10. The ranking score is not stored: every field of a transformed record is
  determined without it. The identifier and the type are constants; title and
  description are sanitized input texts; \<open>triage_score\<close>, the entry \<open>quality_score\<close> of
  \<open>raw_data\<close> and the number in \<open>triage_notes\<close> are the triage score; the entry
  \<open>confound_score\<close> and the second number of the notes are the confound score; the
  status is computed from these two scores; every other entry of \<open>raw_data\<close> is a copy of
  an input field or a group of such copies. For the sample record the ranking score is 11
  and the stored value is 10.
\<close>

theorem quality_score_not_stored:
  "(transform_record render r = Inr iv \<longrightarrow>
      (\<exists>t c. calc_triage_score r = Inr t \<and> calc_confound_score r = Inr c
         \<and> iv = \<lparr> user_id = SYSTEM_USER_ID,
                   investigation_type = ''ufo'',
                   title = take 200
                     ((if clean_text render (get r ''shape'') 20 = [] then []
                       else clean_text render (get r ''shape'') 20 @ '' '')
                      @ ''UFO - ''
                      @ (if map_of r ''city'' = None then ''Unknown''
                         else clean_text render (get r ''city'') 50)
                      @ '', '' @ clean_text render (get r ''state'') 20 @ '' (''
                      @ (case get r ''date_time'' of
                           JStr s \<Rightarrow> if s = [] then ''Unknown'' else take 10 s
                         | JArr xs \<Rightarrow> if xs = [] then ''Unknown'' else render (JArr (take 10 xs))
                         | _ \<Rightarrow> ''Unknown'')
                      @ '')''),
                   description = (if clean_text render (get r ''description'') 500 = []
                                  then ''UFO sighting report''
                                  else clean_text render (get r ''description'') 500),
                   raw_data = build_raw_data r t c,
                   triage_score = t,
                   triage_status = status_of t c,
                   triage_notes = ''Batch import. Quality: '' @ render (json_of_num t)
                     @ ''/10, Confound: '' @ render (JInt c) @ ''%'' \<rparr>
         \<and> obj_get (raw_data iv) ''quality_score'' = Some (json_of_num t)
         \<and> obj_get (raw_data iv) ''confound_score'' = Some (JInt c)
         \<and> (\<forall>v \<in> set (obj_values (raw_data iv)).
               v = json_of_num t \<or> v = JInt c \<or> (\<exists>k. v = get r k)
               \<or> (obj_values v \<noteq> [] \<and> (\<forall>u \<in> set (obj_values v). \<exists>k. u = get r k)))))
   \<and> (\<exists>iv'. transform_record render rich_record = Inr iv'
         \<and> quality_score rich_record = Inr (PInt 11)
         \<and> triage_score iv' = PInt 10
         \<and> triage_notes iv' = ''Batch import. Quality: '' @ render (JInt 10)
               @ ''/10, Confound: '' @ render (JInt 20) @ ''%''
         \<and> title iv' = ''disk UFO - Reno, NV (2020-05-01)''
         \<and> description iv' = ''UFO sighting report''
         \<and> obj_get (raw_data iv') ''quality_score'' = Some (JInt 10)
         \<and> obj_get (raw_data iv') ''quality_score'' \<noteq> Some (json_of_num (PInt 11)))"
proof -
  have a: "\<exists>t c. calc_triage_score r = Inr t \<and> calc_confound_score r = Inr c
         \<and> iv = \<lparr> user_id = SYSTEM_USER_ID,
                   investigation_type = ''ufo'',
                   title = take 200
                     ((if clean_text render (get r ''shape'') 20 = [] then []
                       else clean_text render (get r ''shape'') 20 @ '' '')
                      @ ''UFO - ''
                      @ (if map_of r ''city'' = None then ''Unknown''
                         else clean_text render (get r ''city'') 50)
                      @ '', '' @ clean_text render (get r ''state'') 20 @ '' (''
                      @ (case get r ''date_time'' of
                           JStr s \<Rightarrow> if s = [] then ''Unknown'' else take 10 s
                         | JArr xs \<Rightarrow> if xs = [] then ''Unknown'' else render (JArr (take 10 xs))
                         | _ \<Rightarrow> ''Unknown'')
                      @ '')''),
                   description = (if clean_text render (get r ''description'') 500 = []
                                  then ''UFO sighting report''
                                  else clean_text render (get r ''description'') 500),
                   raw_data = build_raw_data r t c,
                   triage_score = t,
                   triage_status = status_of t c,
                   triage_notes = ''Batch import. Quality: '' @ render (json_of_num t)
                     @ ''/10, Confound: '' @ render (JInt c) @ ''%'' \<rparr>
         \<and> obj_get (raw_data iv) ''quality_score'' = Some (json_of_num t)
         \<and> obj_get (raw_data iv) ''confound_score'' = Some (JInt c)
         \<and> (\<forall>v \<in> set (obj_values (raw_data iv)).
               v = json_of_num t \<or> v = JInt c \<or> (\<exists>k. v = get r k)
               \<or> (obj_values v \<noteq> [] \<and> (\<forall>u \<in> set (obj_values v). \<exists>k. u = get r k)))"
    if tr: "transform_record render r = Inr iv"
    using tr
  proof (rule transform_record_Inr)
    fix t c d
    assume t: "calc_triage_score r = Inr t" and c: "calc_confound_score r = Inr c"
      and d: "(if truthy (get r ''date_time'')
        then slice10 (get_default r ''date_time'' (JStr []))
        else Inr (JStr ''Unknown'')) = Inr d"
      and f: "triage_score iv = t" "triage_status iv = status_of t c"
        "raw_data iv = build_raw_data r t c"
        "title iv = take 200
       ((if clean_text render (get r ''shape'') 20 \<noteq> []
         then clean_text render (get r ''shape'') 20 @ '' '' else [])
        @ ''UFO - '' @ clean_text render (get_default r ''city'' (JStr ''Unknown'')) 50
        @ '', '' @ clean_text render (get r ''state'') 20 @ '' ('' @ py_str render d @ '')'')"
        "user_id iv = SYSTEM_USER_ID" "investigation_type iv = ''ufo''"
        "description iv = (if clean_text render (get r ''description'') 500 \<noteq> []
                       then clean_text render (get r ''description'') 500
                       else ''UFO sighting report'')"
        "triage_notes iv = ''Batch import. Quality: '' @ render (json_of_num t)
                 @ ''/10, Confound: '' @ render (JInt c) @ ''%''"
    have q: "obj_get (build_raw_data r t c) ''quality_score'' = Some (json_of_num t)"
      "obj_get (build_raw_data r t c) ''confound_score'' = Some (JInt c)"
      by (simp_all add: build_raw_data_def obj_get_def)
    have v: "\<forall>v \<in> set (obj_values (build_raw_data r t c)).
               v = json_of_num t \<or> v = JInt c \<or> (\<exists>k. v = get r k)
               \<or> (obj_values v \<noteq> [] \<and> (\<forall>u \<in> set (obj_values v). \<exists>k. u = get r k))"
      by (auto simp: build_raw_data_def obj_values_def)
    have e: "iv = \<lparr> user_id = SYSTEM_USER_ID,
                   investigation_type = ''ufo'',
                   title = take 200
                     ((if clean_text render (get r ''shape'') 20 = [] then []
                       else clean_text render (get r ''shape'') 20 @ '' '')
                      @ ''UFO - ''
                      @ (if map_of r ''city'' = None then ''Unknown''
                         else clean_text render (get r ''city'') 50)
                      @ '', '' @ clean_text render (get r ''state'') 20 @ '' (''
                      @ (case get r ''date_time'' of
                           JStr s \<Rightarrow> if s = [] then ''Unknown'' else take 10 s
                         | JArr xs \<Rightarrow> if xs = [] then ''Unknown'' else render (JArr (take 10 xs))
                         | _ \<Rightarrow> ''Unknown'')
                      @ '')''),
                   description = (if clean_text render (get r ''description'') 500 = []
                                  then ''UFO sighting report''
                                  else clean_text render (get r ''description'') 500),
                   raw_data = build_raw_data r t c,
                   triage_score = t,
                   triage_status = status_of t c,
                   triage_notes = ''Batch import. Quality: '' @ render (json_of_num t)
                     @ ''/10, Confound: '' @ render (JInt c) @ ''%'' \<rparr>"
      using f unfolding date_part[OF d] city_part by (cases iv) simp
    from t c e q v show ?thesis unfolding f(3) by blast
  qed
  have s: "calc_triage_score rich_record = Inr (PInt 10)"
    "calc_confound_score rich_record = Inr 20"
    by (simp_all add: rich_record_def eval_scorers)
  have d: "get rich_record ''date_time'' = JStr ''2020-05-01T00:00:00''"
    "get_default rich_record ''date_time'' (JStr []) = JStr ''2020-05-01T00:00:00''"
    by (simp_all add: rich_record_def get_def get_default_def)
  have x: "clean_text render (get_default rich_record ''city'' (JStr ''Unknown'')) 50 = ''Reno''"
    "clean_text render (get_default rich_record ''state'' (JStr [])) 20 = ''NV''"
    "clean_text render (get_default rich_record ''shape'' (JStr [])) 20 = ''disk''"
    "clean_text render (get_default rich_record ''description'' (JStr [])) 500 = []"
    by (simp_all add: rich_record_def eval_text)
  have q: "quality_score rich_record = Inr (PInt 11)"
    by (simp add: rich_record_def eval_scorers)
  have b: "\<exists>iv'. transform_record render rich_record = Inr iv'
         \<and> quality_score rich_record = Inr (PInt 11)
         \<and> triage_score iv' = PInt 10
         \<and> triage_notes iv' = ''Batch import. Quality: '' @ render (JInt 10)
               @ ''/10, Confound: '' @ render (JInt 20) @ ''%''
         \<and> title iv' = ''disk UFO - Reno, NV (2020-05-01)''
         \<and> description iv' = ''UFO sighting report''
         \<and> obj_get (raw_data iv') ''quality_score'' = Some (JInt 10)
         \<and> obj_get (raw_data iv') ''quality_score'' \<noteq> Some (json_of_num (PInt 11))"
    unfolding transform_record_def s q
    by (simp add: d x bindE_def Let_def slice10_def build_raw_data_def obj_get_def py_str_def)
  from a b show ?thesis by blast
qed

theorem quality_score_not_stored_witness:
  "\<exists>iv. transform_record (\<lambda>v. []) equator_record = Inr iv
     \<and> triage_score iv = PInt 2
     \<and> title iv = ''UFO - Unknown,  (Unknown)''
     \<and> description iv = ''UFO sighting report''
     \<and> triage_status iv = ''provisional''
     \<and> triage_notes iv = ''Batch import. Quality: /10, Confound: %''
     \<and> obj_get (raw_data iv) ''quality_score'' = Some (JInt 2)
     \<and> obj_get (raw_data iv) ''confound_score'' = Some (JInt 0)"
proof -
  have s: "calc_triage_score equator_record = Inr (PInt 2)"
    "calc_confound_score equator_record = Inr 0"
    by (simp_all add: equator_record_def eval_scorers)
  have d: "get equator_record ''date_time'' = JNull"
    by (simp add: equator_record_def get_def)
  have g: "map_of equator_record ''city'' = None" "get equator_record ''shape'' = JNull"
    "get equator_record ''city'' = JNull" "get equator_record ''state'' = JNull"
    "get equator_record ''description'' = JNull"
    by (simp_all add: equator_record_def get_def)
  obtain iv where iv: "transform_record (\<lambda>v. []) equator_record = Inr iv"
    by (simp add: transform_record_def s d bindE_def Let_def)
  from quality_score_not_stored[of "\<lambda>v. []" equator_record iv] iv s
  have "triage_score iv = PInt 2"
    "title iv = ''UFO - Unknown,  (Unknown)''"
    "description iv = ''UFO sighting report''"
    "triage_status iv = ''provisional''"
    "triage_notes iv = ''Batch import. Quality: /10, Confound: %''"
    "obj_get (raw_data iv) ''quality_score'' = Some (JInt 2)"
    "obj_get (raw_data iv) ''confound_score'' = Some (JInt 0)"
    by (auto simp: d g clean_text_def status_of_def num_le_def fl_le_def)
  with iv show ?thesis by blast
qed

end
